theory Spec2Isabelle
  imports Main "HOL-Library.Monad_Syntax"
begin

section \<open>CudaFFT3D: mixed-radix 3D FFT plans (platforms/cuda/src/CudaFFT3D.cpp)\<close>

text \<open>
  The development embeds the host-side code of \<^verbatim>\<open>CudaFFT3D.cpp\<close>: the legaliser
  \<^verbatim>\<open>findLegalDimension\<close>, the radix planner \<^verbatim>\<open>getSmallestRadix\<close>,
  the kernel synthesiser \<^verbatim>\<open>createKernel\<close>, the constructor and \<^verbatim>\<open>execFFT\<close>.

  Conventions of the embedding.
  \<^item> A C++ \<^verbatim>\<open>int\<close> is a HOL \<^typ>\<open>int\<close> between \<open>INT_MIN\<close> and \<open>INT_MAX\<close>, those of
    a 32-bit \<^verbatim>\<open>int\<close>. The operators \<^verbatim>\<open>/\<close> and \<^verbatim>\<open>%\<close> truncate towards zero and are
    \<open>c_div\<close> and \<open>c_mod\<close> below.
  \<^item> Where the code drives a value out of this range from arguments in range, the value
    is reduced modulo \<open>2^32\<close> into the range (\<open>int32\<close>), which is what the compiled code
    does: \<^verbatim>\<open>minimum++\<close> in the search loop of \<^verbatim>\<open>findLegalDimension\<close> and the products
    \<^verbatim>\<open>xsize*ysize*zsize\<close> of \<^verbatim>\<open>execFFT\<close>. The numbers the stage loop of
    \<^verbatim>\<open>createKernel\<close> keeps (\<^verbatim>\<open>L\<close>, \<^verbatim>\<open>m\<close>, \<^verbatim>\<open>stage\<close>, the thread guard) are bounded
    by the axis length and \<^verbatim>\<open>maxThreads\<close>; the multiples of \<^verbatim>\<open>zsize\<close> printed into the
    twiddle indices of a butterfly are not part of this model.
  \<^item> A computation has an outcome of type \<open>(exn + 'a) option\<close>: \<open>None\<close> when it
    does not return (a loop that runs forever), \<open>Some (Inl e)\<close> when it throws \<open>e\<close>,
    \<open>Some (Inr v)\<close> when it returns \<open>v\<close>.
  \<^item> The services of \<^verbatim>\<open>CudaContext\<close> are outside this file. The two pure ones the host
    code reads (\<^verbatim>\<open>getUseDoublePrecision\<close>, \<^verbatim>\<open>intToString\<close>) are fields of a record;
    \<^verbatim>\<open>createModule\<close> and \<^verbatim>\<open>getKernel\<close> build values that remember their arguments, and
    \<^verbatim>\<open>executeKernel\<close> appends the launch to a log.
  \<^item> The text of a butterfly block is fixed by the pass's radix, buffers, \<^verbatim>\<open>L\<close>, \<^verbatim>\<open>m\<close> and
    \<^verbatim>\<open>zsize\<close>; a pass is recorded by these numbers and the floating-point
    constants spliced into the text are left out. The text written after the loop is kept as text.
\<close>

subsection \<open>C++ integers\<close>

definition c_div :: "int \<Rightarrow> int \<Rightarrow> int" where
  "c_div a b = sgn a * sgn b * (\<bar>a\<bar> div \<bar>b\<bar>)"

definition c_mod :: "int \<Rightarrow> int \<Rightarrow> int" where
  "c_mod a b = a - b * c_div a b"

definition INT_MAX :: int where
  "INT_MAX = 2147483647"

definition INT_MIN :: int where
  "INT_MIN = - 2147483648"

text \<open>The value of a 32-bit \<^verbatim>\<open>int\<close> after an operation with the exact result \<open>i\<close>.\<close>

definition int32 :: "int \<Rightarrow> int" where
  "int32 i = (i + 2147483648) mod 4294967296 - 2147483648"

text \<open>An exact result that an \<^verbatim>\<open>int\<close> holds.\<close>

definition representable :: "int \<Rightarrow> bool" where
  "representable i \<longleftrightarrow> INT_MIN \<le> i \<and> i \<le> INT_MAX"

subsection \<open>Exceptions, outcomes and the context\<close>

datatype exn =
    OpenMMException string

type_synonym 'a outcome = "(exn + 'a) option"

record CudaContext =
  getUseDoublePrecision :: bool
  intToString :: "int \<Rightarrow> string"

text \<open>Stream insertion of a non-negative \<^verbatim>\<open>int\<close> (\<^verbatim>\<open>source<<n\<close>): its decimal digits.\<close>

definition digit :: "nat \<Rightarrow> char" where
  "digit d = ''0123456789'' ! d"

function showNat :: "nat \<Rightarrow> string" where
  "showNat n = (if n < 10 then [digit n] else showNat (n div 10) @ [digit (n mod 10)])"
  by pat_completeness auto
termination
  by (relation "measure id") auto

declare showNat.simps [simp del]

definition showInt :: "int \<Rightarrow> string" where
  "showInt i = (if i < 0 then CHR ''-'' # showNat (nat (- i)) else showNat (nat i))"

subsection \<open>findLegalDimension\<close>

text \<open>
  \<^verbatim>\<open>while (unfactored > 1 && unfactored%factor == 0) unfactored /= factor;\<close>
\<close>

partial_function (option) divideOut :: "int \<Rightarrow> int \<Rightarrow> int option" where
  "divideOut factor unfactored =
     (if unfactored > 1 \<and> c_mod unfactored factor = 0
      then divideOut factor (c_div unfactored factor)
      else Some unfactored)"

declare divideOut.simps [code]

text \<open>\<^verbatim>\<open>for (int factor = 2; factor < 8; factor++)\<close> around the loop above.\<close>

function factorLoop :: "int \<Rightarrow> int \<Rightarrow> int option" where
  "factorLoop factor unfactored =
     (if factor < 8
      then (case divideOut factor unfactored of
              None \<Rightarrow> None
            | Some unfactored' \<Rightarrow> factorLoop (factor + 1) unfactored')
      else Some unfactored)"
  by pat_completeness auto
termination
  by (relation "measure (\<lambda>(factor, unfactored). nat (8 - factor))") auto

declare factorLoop.simps [simp del]

text \<open>
  The body of \<^verbatim>\<open>while (true)\<close>: factor the candidate, return it when nothing is left,
  otherwise \<^verbatim>\<open>minimum++\<close>.
\<close>

partial_function (option) searchLegal :: "int \<Rightarrow> int outcome" where
  "searchLegal minimum =
     (case factorLoop 2 minimum of
        None \<Rightarrow> None
      | Some unfactored \<Rightarrow>
          if unfactored = 1 then Some (Inr minimum)
          else searchLegal (int32 (minimum + 1)))"

declare searchLegal.simps [code]

definition findLegalDimension :: "int \<Rightarrow> int outcome" where
  "findLegalDimension minimum = (if minimum < 1 then Some (Inr 1) else searchLegal minimum)"

subsection \<open>getSmallestRadix\<close>

text \<open>
  Each of the five loops \<^verbatim>\<open>while (unfactored%r == 0) { minRadix = r; unfactored /= r; }\<close>
  is \<open>whileDivides r\<close>; it does not return when \<open>unfactored\<close> is 0.
\<close>

partial_function (option) whileDivides :: "int \<Rightarrow> int \<Rightarrow> int \<Rightarrow> (int \<times> int) option" where
  "whileDivides radix minRadix unfactored =
     (if c_mod unfactored radix = 0
      then whileDivides radix radix (c_div unfactored radix)
      else Some (minRadix, unfactored))"

declare whileDivides.simps [code]

definition getSmallestRadix :: "int \<Rightarrow> int option" where
  "getSmallestRadix size' = do {
     (minRadix, unfactored) \<leftarrow> whileDivides 7 1 size';
     (minRadix, unfactored) \<leftarrow> whileDivides 5 minRadix unfactored;
     (minRadix, unfactored) \<leftarrow> whileDivides 4 minRadix unfactored;
     (minRadix, unfactored) \<leftarrow> whileDivides 3 minRadix unfactored;
     (minRadix, unfactored) \<leftarrow> whileDivides 2 minRadix unfactored;
     Some minRadix
   }"

subsection \<open>Kernel programs\<close>

text \<open>
  One iteration of the stage loop of \<^verbatim>\<open>createKernel\<close> appends a block of code to
  \<^verbatim>\<open>source\<close>. The block is recorded by the numbers that are printed into it: the pass
  number \<^verbatim>\<open>stage+1\<close>, the radix, the buffer read (\<^verbatim>\<open>stage%2\<close>) and the buffer written,
  \<^verbatim>\<open>L\<close> after the division, \<^verbatim>\<open>m\<close> before the multiplication, and the bound
  \<^verbatim>\<open>blocksPerGroup*L*m\<close> of the thread guard when \<^verbatim>\<open>L*m < threadsPerBlock\<close>.
\<close>

record pass =
  pass_number :: int
  pass_radix :: int
  pass_input :: int
  pass_output :: int
  pass_L :: int
  pass_m :: int
  pass_guard :: "int option"

text \<open>
  A module remembers what it was built from: for the FFT template the passes, the text
  written after the loop and the string replacements; for the packing kernels the defines.
  A kernel handle is null (a default-constructed \<^verbatim>\<open>CUfunctionFake\<close>) or an entry point of
  a module.
\<close>

datatype CUmodule =
    FFTModule "pass list" string "(string \<times> string) list"
  | R2CModule "(string \<times> string) list"

datatype CUfunctionFake =
    NullFunction
  | Function CUmodule string

subsection \<open>createKernel\<close>

text \<open>The chain of tests that picks the radix of a pass, or throws.\<close>

definition selectRadix :: "CudaContext \<Rightarrow> int \<Rightarrow> int \<Rightarrow> exn + int" where
  "selectRadix context zsize L =
     (if c_mod L 7 = 0 then Inr 7
      else if c_mod L 5 = 0 then Inr 5
      else if c_mod L 4 = 0 then Inr 4
      else if c_mod L 3 = 0 then Inr 3
      else if c_mod L 2 = 0 then Inr 2
      else Inl (OpenMMException (''Illegal size for FFT: '' @ intToString context zsize)))"

text \<open>\<^verbatim>\<open>while (L > 1) { ... L = L/radix; ... m = m*radix; ++stage; }\<close>\<close>

function stageLoop ::
  "CudaContext \<Rightarrow> int \<Rightarrow> int \<Rightarrow> int \<Rightarrow> int \<Rightarrow> int \<Rightarrow> int \<Rightarrow> pass list
     \<Rightarrow> exn + (int \<times> int \<times> int \<times> pass list)" where
  "stageLoop context zsize threadsPerBlock blocksPerGroup stage L m source =
     (if L > 1 then
        (case selectRadix context zsize L of
           Inl e \<Rightarrow> Inl e
         | Inr radix \<Rightarrow>
             stageLoop context zsize threadsPerBlock blocksPerGroup
               (stage + 1) (c_div L radix) (m * radix)
               (source @
                [\<lparr>pass_number = stage + 1, pass_radix = radix,
                  pass_input = c_mod stage 2, pass_output = 1 - c_mod stage 2,
                  pass_L = c_div L radix, pass_m = m,
                  pass_guard = (if c_div L radix * m < threadsPerBlock
                                then Some (blocksPerGroup * c_div L radix * m) else None)\<rparr>]))
      else Inr (stage, L, m, source))"
  by pat_completeness auto
termination
proof (relation "measure (\<lambda>(context, zsize, threadsPerBlock, blocksPerGroup, stage, L, m, source). nat L)")
  fix ctx :: CudaContext and zsize threadsPerBlock blocksPerGroup stage L m :: int
    and source :: "pass list" and radix :: int
  assume L: "1 < L" and r: "selectRadix ctx zsize L = Inr radix"
  from r have "radix \<in> {7, 5, 4, 3, 2}"
    by (auto simp: selectRadix_def split: if_splits)
  with L have "0 \<le> L" "1 < radix" by auto
  then have "c_div L radix = L div radix"
    by (cases "L = 0") (simp_all add: c_div_def)
  moreover have "L div radix < L"
    using L \<open>1 < radix\<close> by (simp add: int_div_less_self)
  ultimately show
    "((ctx, zsize, threadsPerBlock, blocksPerGroup, stage + 1, c_div L radix, m * radix,
       source @
       [\<lparr>pass_number = stage + 1, pass_radix = radix,
         pass_input = c_mod stage 2, pass_output = 1 - c_mod stage 2,
         pass_L = c_div L radix, pass_m = m,
         pass_guard = (if c_div L radix * m < threadsPerBlock
                       then Some (blocksPerGroup * c_div L radix * m) else None)\<rparr>]),
      (ctx, zsize, threadsPerBlock, blocksPerGroup, stage, L, m, source))
     \<in> measure (\<lambda>(context, zsize, threadsPerBlock, blocksPerGroup, stage, L, m, source). nat L)"
    using L by simp
qed simp

declare stageLoop.simps [simp del]

text \<open>The text written after the loop: the guard, the loop over the row, the store.\<close>

definition finalWrite :: "bool \<Rightarrow> string \<Rightarrow> int \<Rightarrow> string" where
  "finalWrite outputIsPacked outputSuffix stage =
     (if outputIsPacked
      then ''if (index < XSIZE*YSIZE && x < XSIZE/2+1)\<newline>''
      else ''if (index < XSIZE*YSIZE)\<newline>'') @
     ''for (int i = threadIdx.x-block*THREADS_PER_BLOCK; i < ZSIZE; i += THREADS_PER_BLOCK)\<newline>'' @
     (if outputIsPacked
      then ''out[y*(ZSIZE*(XSIZE/2+1))+i*(XSIZE/2+1)+x] = data'' @ showInt (c_mod stage 2) @
           ''[i+block*ZSIZE]'' @ outputSuffix @ '';\<newline>''
      else ''out[y*(ZSIZE*XSIZE)+i*XSIZE+x] = data'' @ showInt (c_mod stage 2) @
           ''[i+block*ZSIZE]'' @ outputSuffix @ '';\<newline>'')"

text \<open>
  \<^verbatim>\<open>createKernel\<close> returns the kernel and, through its reference parameter, \<^verbatim>\<open>threads\<close>.
  The entries \<^verbatim>\<open>M_PI\<close> (floating-point text) and \<^verbatim>\<open>COMPUTE_FFT\<close> (the passes and the
  final text, kept apart) are not in the list of replacements.
\<close>

definition createKernel ::
  "CudaContext \<Rightarrow> int \<Rightarrow> int \<Rightarrow> int \<Rightarrow> int \<Rightarrow> bool \<Rightarrow> bool \<Rightarrow> (CUfunctionFake \<times> int) outcome" where
  "createKernel context xsize ysize zsize axis forward inputIsReal =
     (let maxThreads = (if getUseDoublePrecision context then 128 else 256) in
      case getSmallestRadix zsize of
        None \<Rightarrow> None
      | Some smallestRadix \<Rightarrow>
          (let threadsPerBlock = c_div zsize smallestRadix;
               blocksPerGroup = max 1 (c_div maxThreads threadsPerBlock)
           in case stageLoop context zsize threadsPerBlock blocksPerGroup 0 zsize 1 [] of
                Inl e \<Rightarrow> Some (Inl e)
              | Inr (stage, L, m, source) \<Rightarrow>
                  (let outputIsReal = (inputIsReal \<and> axis = 2 \<and> \<not> forward);
                       outputIsPacked = (inputIsReal \<and> axis = 2 \<and> forward);
                       outputSuffix = (if outputIsReal then ''.x'' else '''');
                       replacements =
                         [(''XSIZE'', intToString context xsize),
                          (''YSIZE'', intToString context ysize),
                          (''ZSIZE'', intToString context zsize),
                          (''BLOCKS_PER_GROUP'', intToString context blocksPerGroup),
                          (''THREADS_PER_BLOCK'', intToString context threadsPerBlock),
                          (''SIGN'', if forward then ''1'' else ''-1''),
                          (''INPUT_TYPE'',
                             if inputIsReal \<and> axis = 0 \<and> forward then ''real'' else ''real2''),
                          (''OUTPUT_TYPE'', if outputIsReal then ''real'' else ''real2''),
                          (''INPUT_IS_REAL'',
                             if inputIsReal \<and> axis = 0 \<and> forward then ''1'' else ''0''),
                          (''INPUT_IS_PACKED'',
                             if inputIsReal \<and> axis = 0 \<and> \<not> forward then ''1'' else ''0''),
                          (''OUTPUT_IS_PACKED'', if outputIsPacked then ''1'' else ''0'')];
                       kernel = Function
                         (FFTModule source (finalWrite outputIsPacked outputSuffix stage) replacements)
                         ''execFFT'';
                       threads = blocksPerGroup * threadsPerBlock
                   in Some (Inr (kernel, threads)))))"

subsection \<open>The constructor\<close>

text \<open>
  The first part of the constructor decides the packing: \<^verbatim>\<open>packRealAsComplex\<close>,
  \<^verbatim>\<open>packedAxis\<close> (not set when nothing is packed) and the three packed sizes. The local
  \<^verbatim>\<open>bufferSize\<close> is written and never read.
\<close>

definition selectPacking ::
  "int \<Rightarrow> int \<Rightarrow> int \<Rightarrow> bool \<Rightarrow> bool \<times> int option \<times> int \<times> int \<times> int" where
  "selectPacking xsize ysize zsize realToComplex =
     (if realToComplex then
        (if c_mod xsize 2 = 0 then (True, Some 0, c_div xsize 2, ysize, zsize)
         else if c_mod ysize 2 = 0 then (True, Some 1, xsize, c_div ysize 2, zsize)
         else if c_mod zsize 2 = 0 then (True, Some 2, xsize, ysize, c_div zsize 2)
         else (False, None, xsize, ysize, zsize))
      else (False, None, xsize, ysize, zsize))"

text \<open>The module of the packing kernels, built from its defines (\<^verbatim>\<open>M_PI\<close> left out).\<close>

definition packingModule ::
  "CudaContext \<Rightarrow> int \<Rightarrow> int \<Rightarrow> int \<Rightarrow> int \<Rightarrow> int \<Rightarrow> int \<Rightarrow> int \<Rightarrow> CUmodule" where
  "packingModule context xsize ysize zsize packedAxis packedXSize packedYSize packedZSize =
     R2CModule
       [(''XSIZE'', intToString context xsize),
        (''YSIZE'', intToString context ysize),
        (''ZSIZE'', intToString context zsize),
        (''PACKED_AXIS'', intToString context packedAxis),
        (''PACKED_XSIZE'', intToString context packedXSize),
        (''PACKED_YSIZE'', intToString context packedYSize),
        (''PACKED_ZSIZE'', intToString context packedZSize)]"

text \<open>Sequencing of outcomes: a callee that does not return or throws ends the caller.\<close>

definition andThen :: "'a outcome \<Rightarrow> ('a \<Rightarrow> 'b outcome) \<Rightarrow> 'b outcome" where
  "andThen x f = (case x of None \<Rightarrow> None | Some (Inl e) \<Rightarrow> Some (Inl e) | Some (Inr v) \<Rightarrow> f v)"

record CudaFFT3D =
  xsize :: int
  ysize :: int
  zsize :: int
  xthreads :: int
  ythreads :: int
  zthreads :: int
  packRealAsComplex :: bool
  xkernel :: CUfunctionFake
  ykernel :: CUfunctionFake
  zkernel :: CUfunctionFake
  invxkernel :: CUfunctionFake
  invykernel :: CUfunctionFake
  invzkernel :: CUfunctionFake
  packForwardKernel :: CUfunctionFake
  unpackForwardKernel :: CUfunctionFake
  packBackwardKernel :: CUfunctionFake
  unpackBackwardKernel :: CUfunctionFake

text \<open>
  The constructor, with primed parameters (the members have the plain names). Under
  \<^verbatim>\<open>if (packRealAsComplex)\<close> the four packing kernels are built, reading \<^verbatim>\<open>packedAxis\<close>
  (set on each path that leaves the flag true); otherwise they stay default-constructed.
  The six calls of \<^verbatim>\<open>createKernel\<close> run in the order of the source; the inverse
  kernels' calls overwrite \<^verbatim>\<open>zthreads\<close>, \<^verbatim>\<open>xthreads\<close> and \<^verbatim>\<open>ythreads\<close>.
\<close>

definition newCudaFFT3D :: "CudaContext \<Rightarrow> int \<Rightarrow> int \<Rightarrow> int \<Rightarrow> bool \<Rightarrow> CudaFFT3D outcome" where
  "newCudaFFT3D context xsize' ysize' zsize' realToComplex =
     (case selectPacking xsize' ysize' zsize' realToComplex of
        (packRealAsComplex', packedAxis, packedXSize, packedYSize, packedZSize) \<Rightarrow>
          (let packKernels =
                 (if packRealAsComplex' then
                    (case packedAxis of
                       Some axis \<Rightarrow>
                         (let module = packingModule context xsize' ysize' zsize' axis
                                         packedXSize packedYSize packedZSize
                          in (Function module ''packForwardData'',
                              Function module ''unpackForwardData'',
                              Function module ''packBackwardData'',
                              Function module ''unpackBackwardData''))
                     | None \<Rightarrow> (NullFunction, NullFunction, NullFunction, NullFunction))
                  else (NullFunction, NullFunction, NullFunction, NullFunction));
               inputIsReal = (realToComplex \<and> \<not> packRealAsComplex')
           in
           andThen (createKernel context packedXSize packedYSize packedZSize 0 True inputIsReal)
             (\<lambda>(zkernel', zthreads1).
           andThen (createKernel context packedYSize packedZSize packedXSize 1 True inputIsReal)
             (\<lambda>(xkernel', xthreads1).
           andThen (createKernel context packedZSize packedXSize packedYSize 2 True inputIsReal)
             (\<lambda>(ykernel', ythreads1).
           andThen (createKernel context packedXSize packedYSize packedZSize 0 False inputIsReal)
             (\<lambda>(invzkernel', zthreads2).
           andThen (createKernel context packedYSize packedZSize packedXSize 1 False inputIsReal)
             (\<lambda>(invxkernel', xthreads2).
           andThen (createKernel context packedZSize packedXSize packedYSize 2 False inputIsReal)
             (\<lambda>(invykernel', ythreads2).
           Some (Inr
             \<lparr>xsize = xsize', ysize = ysize', zsize = zsize',
              xthreads = xthreads2, ythreads = ythreads2, zthreads = zthreads2,
              packRealAsComplex = packRealAsComplex',
              xkernel = xkernel', ykernel = ykernel', zkernel = zkernel',
              invxkernel = invxkernel', invykernel = invykernel', invzkernel = invzkernel',
              packForwardKernel = fst packKernels,
              unpackForwardKernel = fst (snd packKernels),
              packBackwardKernel = fst (snd (snd packKernels)),
              unpackBackwardKernel = snd (snd (snd packKernels))\<rparr>)))))))))"

subsection \<open>execFFT\<close>

text \<open>
  A device array is known by its device pointer. \<^verbatim>\<open>executeKernel(kernel, args, threads,
  blockSize)\<close> is recorded in the log of launches, in order. The spec reads a launch
  with the arguments \<^verbatim>\<open>(a, b)\<close> as \<^verbatim>\<open>b = f(a)\<close>: the first buffer is read, the second
  written. The grid size \<^verbatim>\<open>xsize*ysize*zsize\<close> is a product of \<^verbatim>\<open>int\<close>s, taken from left to
  right, each product an \<^verbatim>\<open>int\<close> again (\<open>mul32\<close>), and \<^verbatim>\<open>threads\<close> is an \<^verbatim>\<open>int\<close>
  parameter of \<^verbatim>\<open>executeKernel\<close>.
\<close>

definition mul32 :: "int \<Rightarrow> int \<Rightarrow> int" where
  "mul32 a b = int32 (a * b)"

record CudaArray =
  getDevicePointer :: nat

record launch =
  launch_kernel :: CUfunctionFake
  launch_args :: "nat list"
  launch_threads :: int
  launch_blockSize :: int

definition executeKernel :: "launch list \<Rightarrow> CUfunctionFake \<Rightarrow> nat list \<Rightarrow> int \<Rightarrow> int \<Rightarrow> launch list" where
  "executeKernel log kernel' args threads blockSize =
     log @ [\<lparr>launch_kernel = kernel', launch_args = args,
             launch_threads = threads, launch_blockSize = blockSize\<rparr>]"

definition execFFT :: "CudaFFT3D \<Rightarrow> CudaArray \<Rightarrow> CudaArray \<Rightarrow> bool \<Rightarrow> launch list \<Rightarrow> launch list" where
  "execFFT this in' out forward log =
     (let kernel1 = (if forward then zkernel this else invzkernel this);
          kernel2 = (if forward then xkernel this else invxkernel this);
          kernel3 = (if forward then ykernel this else invykernel this);
          args1 = [getDevicePointer in', getDevicePointer out];
          args2 = [getDevicePointer out, getDevicePointer in']
      in if packRealAsComplex this then
           (let packKernel = (if forward then packForwardKernel this else packBackwardKernel this);
                unpackKernel = (if forward then unpackForwardKernel this else unpackBackwardKernel this);
                gridSize = c_div (mul32 (mul32 (xsize this) (ysize this)) (zsize this)) 2;
                log1 = executeKernel log packKernel args1 gridSize 128;
                log2 = executeKernel log1 kernel1 args2 gridSize (zthreads this);
                log3 = executeKernel log2 kernel2 args1 gridSize (xthreads this);
                log4 = executeKernel log3 kernel3 args2 gridSize (ythreads this)
            in executeKernel log4 unpackKernel args1 gridSize 128)
         else
           (let log1 = executeKernel log kernel1 args1
                         (mul32 (mul32 (xsize this) (ysize this)) (zsize this)) (zthreads this);
                log2 = executeKernel log1 kernel2 args2
                         (mul32 (mul32 (xsize this) (ysize this)) (zsize this)) (xthreads this)
            in executeKernel log2 kernel3 args1
                 (mul32 (mul32 (xsize this) (ysize this)) (zsize this)) (ythreads this)))"

subsection \<open>Reading a kernel\<close>

fun passes :: "CUfunctionFake \<Rightarrow> pass list" where
  "passes (Function (FFTModule source code replacements) name) = source"
| "passes _ = []"


fun replacement :: "CUfunctionFake \<Rightarrow> string \<Rightarrow> string option" where
  "replacement (Function (FFTModule source code replacements) name) key = map_of replacements key"
| "replacement (Function (R2CModule defines) name) key = map_of defines key"
| "replacement NullFunction key = None"



text \<open>
  Modelled from the spec: \<^verbatim>\<open>CudaContext::intToString\<close> is not part of this file; the spec
  lists it among the formatting helpers as the conversion of an integer to text. The two
  contexts below, for concrete runs in single and in double precision, take the decimal
  digits for it. Every general statement holds for any \<^verbatim>\<open>intToString\<close>.
\<close>

definition singlePrecision :: CudaContext where
  "singlePrecision = \<lparr>getUseDoublePrecision = False, intToString = showInt\<rparr>"

definition doublePrecision :: CudaContext where
  "doublePrecision = \<lparr>getUseDoublePrecision = True, intToString = showInt\<rparr>"

subsection \<open>Notions of the specification\<close>

text \<open>
  A legal axis length: a positive integer whose prime factors all lie in \<open>{2, 3, 5, 7}\<close>.
\<close>

definition is_prime :: "int \<Rightarrow> bool" where
  "is_prime p \<longleftrightarrow> 1 < p \<and> (\<forall>d. 0 < d \<and> d dvd p \<longrightarrow> d = 1 \<or> d = p)"

definition legalSize :: "int \<Rightarrow> bool" where
  "legalSize n \<longleftrightarrow> 1 \<le> n \<and> (\<forall>p. is_prime p \<and> p dvd n \<longrightarrow> p \<in> {2, 3, 5, 7})"

text \<open>The first of 7, 5, 4, 3, 2 that divides the remaining length.\<close>

definition firstRadix :: "int \<Rightarrow> int option" where
  "firstRadix L = List.find (\<lambda>r. r dvd L) [7, 5, 4, 3, 2]"

text \<open>
  A sequence of radices follows the priority rule from \<open>L\<close> when each radix is the first
  divisor of the length remaining at its stage, and nothing remains at the end.
\<close>

fun followsPriority :: "int \<Rightarrow> int list \<Rightarrow> bool" where
  "followsPriority L [] = (L = 1)"
| "followsPriority L (r # rs) = (1 < L \<and> firstRadix L = Some r \<and> followsPriority (L div r) rs)"

text \<open>The lengths that remain at the head of the loop during the decomposition of \<open>L\<close>.\<close>

inductive remains :: "int \<Rightarrow> int \<Rightarrow> bool" where
  now: "remains L L"
| later: "1 < L \<Longrightarrow> firstRadix L = Some r \<Longrightarrow> remains (L div r) L' \<Longrightarrow> remains L L'"

code_pred remains .

text \<open>
  \<^verbatim>\<open>getSmallestRadix\<close> with the sequence of values assigned to \<^verbatim>\<open>minRadix\<close> kept: the
  radices its five loops divide out, in order. The function of the source returns the
  last of them, which is the smallest (\<open>whileDivides_spec\<close> and
  \<open>getSmallestRadix_trace\<close> below tie the two together).
\<close>

partial_function (option) whileDividesTrace :: "int \<Rightarrow> int list \<Rightarrow> int \<Rightarrow> (int list \<times> int) option" where
  "whileDividesTrace radix trace unfactored =
     (if c_mod unfactored radix = 0
      then whileDividesTrace radix (trace @ [radix]) (c_div unfactored radix)
      else Some (trace, unfactored))"

declare whileDividesTrace.simps [code]

definition getSmallestRadixTrace :: "int \<Rightarrow> int list option" where
  "getSmallestRadixTrace size' = do {
     (trace, unfactored) \<leftarrow> whileDividesTrace 7 [] size';
     (trace, unfactored) \<leftarrow> whileDividesTrace 5 trace unfactored;
     (trace, unfactored) \<leftarrow> whileDividesTrace 4 trace unfactored;
     (trace, unfactored) \<leftarrow> whileDividesTrace 3 trace unfactored;
     (trace, unfactored) \<leftarrow> whileDividesTrace 2 trace unfactored;
     Some trace
   }"

section \<open>Proofs\<close>

subsection \<open>Division and legal sizes\<close>

lemma int32_id: "INT_MIN \<le> i \<Longrightarrow> i \<le> INT_MAX \<Longrightarrow> int32 i = i"
  by (simp add: int32_def INT_MIN_def INT_MAX_def)

lemma c_div_nonneg: "0 \<le> a \<Longrightarrow> 0 < b \<Longrightarrow> c_div a b = a div b"
  by (cases "a = 0") (simp_all add: c_div_def)

lemma c_mod_nonneg: "0 \<le> a \<Longrightarrow> 0 < b \<Longrightarrow> c_mod a b = a mod b"
  by (simp add: c_mod_def c_div_nonneg minus_mult_div_eq_mod)

lemma c_div_exact: 
  assumes "b dvd a" shows "c_div a b = a div b"
proof (cases "b = 0")
  case True
  then show ?thesis by (simp add: c_div_def)
next
  case False
  from assms obtain k where k: "a = b * k" ..
  have "sgn (b * k) * sgn b * (\<bar>b * k\<bar> div \<bar>b\<bar>) = (sgn b * sgn b) * (sgn k * \<bar>k\<bar>)"
    using False by (simp add: sgn_mult abs_mult)
  also have "\<dots> = k"
    using False by (simp add: sgn_mult_abs sgn_mult_self_eq)
  finally show ?thesis using False k by (simp add: c_div_def)
qed

lemma c_mod_eq_0_iff: "c_mod a b = 0 \<longleftrightarrow> b dvd a"
proof
  assume "c_mod a b = 0"
  then have "a = b * c_div a b" by (simp add: c_mod_def)
  then show "b dvd a" by (rule dvdI)
next
  assume "b dvd a"
  then show "c_mod a b = 0" by (simp add: c_mod_def c_div_exact)
qed

lemma legalSize_1: "legalSize 1"
  by (auto simp: legalSize_def is_prime_def)

lemma legalSize_dvd: "legalSize n \<Longrightarrow> d dvd n \<Longrightarrow> 0 < d \<Longrightarrow> legalSize d"
  unfolding legalSize_def by (meson dvd_trans int_one_le_iff_zero_less)

lemma prime_factor_exists: "1 < n \<Longrightarrow> \<exists>p. is_prime p \<and> p dvd n"
proof (induction "nat n" arbitrary: n rule: less_induct)
  case less
  show ?case
  proof (cases "is_prime n")
    case True
    then show ?thesis by auto
  next
    case False
    with less.prems obtain d where d: "0 < d" "d dvd n" "d \<noteq> 1" "d \<noteq> n"
      by (auto simp: is_prime_def)
    then have "d \<le> n" using less.prems by (simp add: zdvd_imp_le)
    with d have "1 < d" "nat d < nat n" by auto
    with less.hyps obtain p where "is_prime p" "p dvd d" by blast
    with d show ?thesis by (meson dvd_trans)
  qed
qed

lemma is_prime_dvd_mult:
  assumes "is_prime p" "p dvd a * b" shows "p dvd a \<or> p dvd b"
proof (cases "p dvd a")
  case True
  then show ?thesis ..
next
  case False
  have "gcd p a dvd p" by simp
  moreover have "0 < gcd p a" using assms(1) by (simp add: is_prime_def gcd_pos_int)
  ultimately have "gcd p a = 1 \<or> gcd p a = p"
    using assms(1) by (simp add: is_prime_def)
  with False have "coprime p a"
    by (metis gcd_dvd2 coprime_iff_gcd_eq_1)
  with assms(2) show ?thesis
    by (simp add: coprime_dvd_mult_right_iff)
qed

lemma legalSize_mult:
  assumes "legalSize a" "legalSize b" shows "legalSize (a * b)"
proof -
  have "1 \<le> a" "1 \<le> b" using assms by (simp_all add: legalSize_def)
  then have "1 * 1 \<le> a * b" by (intro mult_mono) simp_all
  moreover have "p \<in> {2, 3, 5, 7}" if "is_prime p" "p dvd a * b" for p
    using is_prime_dvd_mult [OF that] assms that(1) by (auto simp: legalSize_def)
  ultimately show ?thesis by (simp add: legalSize_def)
qed

lemma is_prime_dvd_le: "is_prime p \<Longrightarrow> p dvd n \<Longrightarrow> 0 < n \<Longrightarrow> 1 < p \<and> p \<le> n"
  by (simp add: is_prime_def zdvd_imp_le)

lemma legalSize_2: "legalSize 2"
  unfolding legalSize_def
proof (intro conjI allI impI)
  fix p :: int assume "is_prime p \<and> p dvd 2"
  then have "1 < p \<and> p \<le> 2" using is_prime_dvd_le [of p 2] by simp
  then show "p \<in> {2, 3, 5, 7}" by auto
qed simp

lemma legalSize_3: "legalSize 3"
  unfolding legalSize_def
proof (intro conjI allI impI)
  fix p :: int assume "is_prime p \<and> p dvd 3"
  then have "1 < p \<and> p \<le> 3" using is_prime_dvd_le [of p 3] by simp
  then have "p = 2 \<or> p = 3" by auto
  then show "p \<in> {2, 3, 5, 7}" by auto
qed simp

lemma legalSize_5: "legalSize 5"
  unfolding legalSize_def
proof (intro conjI allI impI)
  fix p :: int assume p: "is_prime p \<and> p dvd 5"
  then have "1 < p \<and> p \<le> 5" using is_prime_dvd_le [of p 5] by simp
  then have "p = 2 \<or> p = 3 \<or> p = 4 \<or> p = 5" by auto
  with p show "p \<in> {2, 3, 5, 7}" by auto
qed simp

lemma legalSize_7: "legalSize 7"
  unfolding legalSize_def
proof (intro conjI allI impI)
  fix p :: int assume p: "is_prime p \<and> p dvd 7"
  then have "1 < p \<and> p \<le> 7" using is_prime_dvd_le [of p 7] by simp
  then have "p = 2 \<or> p = 3 \<or> p = 4 \<or> p = 5 \<or> p = 6 \<or> p = 7" by auto
  with p show "p \<in> {2, 3, 5, 7}" by auto
qed simp

lemma legalSize_4: "legalSize 4"
  using legalSize_mult [OF legalSize_2 legalSize_2] by simp

lemma legalSize_6: "legalSize 6"
  using legalSize_mult [OF legalSize_2 legalSize_3] by simp

lemma legalSize_power: "legalSize r \<Longrightarrow> legalSize (r ^ k)"
  by (induction k) (simp_all add: legalSize_1 legalSize_mult)

lemma legalSize_cases:
  assumes "legalSize n"
  shows "n = 1 \<or> 2 dvd n \<or> 3 dvd n \<or> 5 dvd n \<or> 7 dvd n"
proof (cases "n = 1")
  case False
  with assms have "1 < n" by (simp add: legalSize_def)
  then obtain p where "is_prime p" "p dvd n" using prime_factor_exists by blast
  with assms show ?thesis by (auto simp: legalSize_def)
qed simp

lemma legalSize_pos: "legalSize n \<Longrightarrow> 0 < n"
  by (simp add: legalSize_def)

lemma legalSize_div: 
  assumes "legalSize n" "r dvd n" "0 < r" shows "legalSize (n div r)"
proof -
  from assms(2) obtain k where k: "n = r * k" ..
  with assms(3) have "n div r = k" by simp
  moreover have "0 < k"
    using legalSize_pos [OF assms(1)] assms(3) k by (simp add: zero_less_mult_iff)
  ultimately have "n div r dvd n" "0 < n div r" using k by simp_all
  then show ?thesis using assms(1) legalSize_dvd by blast
qed

lemma legalSize_iff_smooth:
  "legalSize n \<longleftrightarrow> (\<exists>a b c d. n = 2 ^ a * 3 ^ b * 5 ^ c * 7 ^ d)"
proof
  assume "legalSize n"
  then show "\<exists>a b c d. n = 2 ^ a * 3 ^ b * 5 ^ c * 7 ^ d"
  proof (induction "nat n" arbitrary: n rule: less_induct)
    case less
    note leg = \<open>legalSize n\<close>
    have step: "\<exists>a b c d. n = 2 ^ a * 3 ^ b * 5 ^ c * 7 ^ d"
      if r: "r dvd n" "1 < r"
        and ex: "\<And>a b c d. \<exists>a' b' c' d'. r * (2 ^ a * 3 ^ b * 5 ^ c * 7 ^ d) = 2 ^ a' * 3 ^ b' * 5 ^ c' * 7 ^ d'"
      for r :: int
    proof -
      have pos: "0 < n" using leg by (rule legalSize_pos)
      have "legalSize (n div r)" using leg r by (simp add: legalSize_div)
      moreover from this have "nat (n div r) < nat n"
        using pos r int_div_less_self [of n r] legalSize_pos [OF \<open>legalSize (n div r)\<close>] by simp
      ultimately obtain a b c d where "n div r = 2 ^ a * 3 ^ b * 5 ^ c * 7 ^ d"
        using less.hyps by blast
      then have "n = r * (2 ^ a * 3 ^ b * 5 ^ c * 7 ^ d)"
        using r(1) by (metis dvd_mult_div_cancel)
      with ex show ?thesis by metis
    qed
    from legalSize_cases [OF leg] show ?case
    proof (elim disjE)
      assume "n = 1"
      then have "n = 2 ^ 0 * 3 ^ 0 * 5 ^ 0 * 7 ^ 0" by simp
      then show ?thesis by blast
    next
      assume "2 dvd n"
      then show ?thesis
      proof (rule step)
        fix a b c d :: nat
        have "(2::int) * (2 ^ a * 3 ^ b * 5 ^ c * 7 ^ d) = 2 ^ Suc a * 3 ^ b * 5 ^ c * 7 ^ d" by simp
        then show "\<exists>a' b' c' d'. (2::int) * (2 ^ a * 3 ^ b * 5 ^ c * 7 ^ d) = 2 ^ a' * 3 ^ b' * 5 ^ c' * 7 ^ d'"
          by blast
      qed simp
    next
      assume "3 dvd n"
      then show ?thesis
      proof (rule step)
        fix a b c d :: nat
        have "(3::int) * (2 ^ a * 3 ^ b * 5 ^ c * 7 ^ d) = 2 ^ a * 3 ^ Suc b * 5 ^ c * 7 ^ d" by simp
        then show "\<exists>a' b' c' d'. (3::int) * (2 ^ a * 3 ^ b * 5 ^ c * 7 ^ d) = 2 ^ a' * 3 ^ b' * 5 ^ c' * 7 ^ d'"
          by blast
      qed simp
    next
      assume "5 dvd n"
      then show ?thesis
      proof (rule step)
        fix a b c d :: nat
        have "(5::int) * (2 ^ a * 3 ^ b * 5 ^ c * 7 ^ d) = 2 ^ a * 3 ^ b * 5 ^ Suc c * 7 ^ d" by simp
        then show "\<exists>a' b' c' d'. (5::int) * (2 ^ a * 3 ^ b * 5 ^ c * 7 ^ d) = 2 ^ a' * 3 ^ b' * 5 ^ c' * 7 ^ d'"
          by blast
      qed simp
    next
      assume "7 dvd n"
      then show ?thesis
      proof (rule step)
        fix a b c d :: nat
        have "(7::int) * (2 ^ a * 3 ^ b * 5 ^ c * 7 ^ d) = 2 ^ a * 3 ^ b * 5 ^ c * 7 ^ Suc d" by simp
        then show "\<exists>a' b' c' d'. (7::int) * (2 ^ a * 3 ^ b * 5 ^ c * 7 ^ d) = 2 ^ a' * 3 ^ b' * 5 ^ c' * 7 ^ d'"
          by blast
      qed simp
    qed
  qed
next
  assume "\<exists>a b c d. n = 2 ^ a * 3 ^ b * 5 ^ c * 7 ^ d"
  then show "legalSize n"
    by (auto intro!: legalSize_mult legalSize_power legalSize_2 legalSize_3 legalSize_5 legalSize_7)
qed

lemma exact_div_pos:
  fixes f u :: int
  assumes "f dvd u" "0 < f" "0 < u" shows "0 < u div f"
proof -
  from assms(1) obtain k where k: "u = f * k" ..
  with assms(2,3) have "0 < k" using zero_less_mult_pos [of f k] by simp
  with k assms(2) show ?thesis by simp
qed

lemma divideOut_spec:
  assumes "2 \<le> f" "1 \<le> u"
  shows "\<exists>u' k. divideOut f u = Some u' \<and> 1 \<le> u' \<and> u = u' * f ^ k \<and> (u' = 1 \<or> \<not> f dvd u')"
  using assms(2)
proof (induction "nat u" arbitrary: u rule: less_induct)
  case less
  show ?case
  proof (cases "1 < u \<and> f dvd u")
    case True
    then have q: "c_div u f = u div f" by (simp add: c_div_exact)
    from True assms(1) have "u div f < u" by (simp add: int_div_less_self)
    moreover from True assms(1) have "1 \<le> u div f"
      using exact_div_pos [of f u] by simp
    ultimately have "\<exists>u' k. divideOut f (u div f) = Some u' \<and> 1 \<le> u' \<and>
        u div f = u' * f ^ k \<and> (u' = 1 \<or> \<not> f dvd u')"
      using less.prems by (intro less.hyps) simp_all
    then obtain u' k where IH: "divideOut f (u div f) = Some u'" "1 \<le> u'"
        "u div f = u' * f ^ k" "u' = 1 \<or> \<not> f dvd u'"
      by blast
    have "u = (u div f) * f" using True by simp
    with IH(3) have "u = u' * f ^ Suc k" by simp
    moreover have "divideOut f u = Some u'"
      using True q IH(1) by (subst divideOut.simps) (simp add: c_mod_eq_0_iff)
    ultimately show ?thesis using IH(2,4) by blast
  next
    case False
    then have "divideOut f u = Some u"
      by (subst divideOut.simps) (auto simp: c_mod_eq_0_iff)
    moreover have "u = u * f ^ 0" by simp
    moreover have "u = 1 \<or> \<not> f dvd u" using False less.prems by auto
    ultimately show ?thesis using less.prems by blast
  qed
qed

lemma factorLoop_unroll:
  "factorLoop 2 u =
     Option.bind (divideOut 2 u) (\<lambda>u1. Option.bind (divideOut 3 u1) (\<lambda>u2.
     Option.bind (divideOut 4 u2) (\<lambda>u3. Option.bind (divideOut 5 u3) (\<lambda>u4.
     Option.bind (divideOut 6 u4) (\<lambda>u5. divideOut 7 u5)))))"
  by (simp add: factorLoop.simps split: option.splits Option.bind_splits)

lemma dvd_one_int: "(a::int) dvd 1 \<Longrightarrow> 1 \<le> a \<Longrightarrow> a = 1"
  using zdvd_imp_le [of a 1] by simp

lemma factorLoop_spec:
  assumes "1 \<le> u"
  shows "\<exists>u'. factorLoop 2 u = Some u' \<and> 1 \<le> u' \<and> (u' = 1 \<longleftrightarrow> legalSize u)"
proof -
  obtain u1 k1 where 1: "divideOut 2 u = Some u1" "1 \<le> u1" "u = u1 * 2 ^ k1" "u1 = 1 \<or> \<not> 2 dvd u1"
    using divideOut_spec [of 2 u] assms by force
  obtain u2 k2 where 2: "divideOut 3 u1 = Some u2" "1 \<le> u2" "u1 = u2 * 3 ^ k2" "u2 = 1 \<or> \<not> 3 dvd u2"
    using divideOut_spec [of 3 u1] 1(2) by force
  obtain u3 k3 where 3: "divideOut 4 u2 = Some u3" "1 \<le> u3" "u2 = u3 * 4 ^ k3" "u3 = 1 \<or> \<not> 4 dvd u3"
    using divideOut_spec [of 4 u2] 2(2) by force
  obtain u4 k4 where 4: "divideOut 5 u3 = Some u4" "1 \<le> u4" "u3 = u4 * 5 ^ k4" "u4 = 1 \<or> \<not> 5 dvd u4"
    using divideOut_spec [of 5 u3] 3(2) by force
  obtain u5 k5 where 5: "divideOut 6 u4 = Some u5" "1 \<le> u5" "u4 = u5 * 6 ^ k5" "u5 = 1 \<or> \<not> 6 dvd u5"
    using divideOut_spec [of 6 u4] 4(2) by force
  obtain u6 k6 where 6: "divideOut 7 u5 = Some u6" "1 \<le> u6" "u5 = u6 * 7 ^ k6" "u6 = 1 \<or> \<not> 7 dvd u6"
    using divideOut_spec [of 7 u5] 5(2) by force
  have run: "factorLoop 2 u = Some u6"
    by (simp add: factorLoop_unroll 1(1) 2(1) 3(1) 4(1) 5(1) 6(1))
  have d65: "u6 dvd u5" using 6(3) by simp
  have d64: "u6 dvd u4" using d65 5(3) by (simp add: dvd_mult2)
  have d63: "u6 dvd u3" using d64 4(3) by (simp add: dvd_mult2)
  have d62: "u6 dvd u2" using d63 3(3) by (simp add: dvd_mult2)
  have d61: "u6 dvd u1" using d62 2(3) by (simp add: dvd_mult2)
  have d60: "u6 dvd u" using d61 1(3) by (simp add: dvd_mult2)
  have "u6 = 1" if leg: "legalSize u"
  proof (rule ccontr)
    assume ne: "u6 \<noteq> 1"
    have n1: "u1 \<noteq> 1" using ne d61 6(2) dvd_one_int by blast
    have n2: "u2 \<noteq> 1" using ne d62 6(2) dvd_one_int by blast
    have n4: "u4 \<noteq> 1" using ne d64 6(2) dvd_one_int by blast
    have "legalSize u6" using leg d60 6(2) by (auto intro: legalSize_dvd)
    then have "2 dvd u6 \<or> 3 dvd u6 \<or> 5 dvd u6 \<or> 7 dvd u6"
      using legalSize_cases ne by blast
    moreover have "\<not> 2 dvd u6" using 1(4) n1 d61 dvd_trans by blast
    moreover have "\<not> 3 dvd u6" using 2(4) n2 d62 dvd_trans by blast
    moreover have "\<not> 5 dvd u6" using 4(4) n4 d64 dvd_trans by blast
    moreover have "\<not> 7 dvd u6" using 6(4) ne by blast
    ultimately show False by blast
  qed
  moreover have "legalSize u" if "u6 = 1"
  proof -
    have "u = 7 ^ k6 * 6 ^ k5 * 5 ^ k4 * 4 ^ k3 * 3 ^ k2 * 2 ^ k1"
      using that 1(3) 2(3) 3(3) 4(3) 5(3) 6(3) by simp
    then show ?thesis
      by (simp only:) (intro legalSize_mult legalSize_power legalSize_2 legalSize_3 legalSize_4
            legalSize_5 legalSize_6 legalSize_7)
  qed
  ultimately show ?thesis using run 6(2) by blast
qed

lemma searchLegal_finds:
  assumes "legalSize B" "B \<le> INT_MAX" "1 \<le> minimum" "minimum \<le> B"
  shows "\<exists>r. searchLegal minimum = Some (Inr r) \<and> minimum \<le> r \<and> r \<le> B \<and> legalSize r \<and>
           (\<forall>k. minimum \<le> k \<and> k < r \<longrightarrow> \<not> legalSize k)"
  using assms(3,4)
proof (induction "nat (B - minimum)" arbitrary: minimum rule: less_induct)
  case less
  obtain u' where u': "factorLoop 2 minimum = Some u'" "u' = 1 \<longleftrightarrow> legalSize minimum"
    using factorLoop_spec [OF less.prems(1)] by blast
  show ?case
  proof (cases "legalSize minimum")
    case True
    then have "searchLegal minimum = Some (Inr minimum)"
      using u' by (subst searchLegal.simps) simp
    with True less.prems show ?thesis by auto
  next
    case False
    with assms(1) less.prems have lt: "minimum < B" by (cases "minimum = B") auto
    with assms(2) less.prems have "int32 (minimum + 1) = minimum + 1"
      by (intro int32_id) (simp_all add: INT_MIN_def)
    then have unfold: "searchLegal minimum = searchLegal (minimum + 1)"
      using u' False by (subst searchLegal.simps) simp
    have "\<exists>r. searchLegal (minimum + 1) = Some (Inr r) \<and> minimum + 1 \<le> r \<and> r \<le> B \<and> legalSize r \<and>
           (\<forall>k. minimum + 1 \<le> k \<and> k < r \<longrightarrow> \<not> legalSize k)"
      using lt less.prems by (intro less.hyps) auto
    then obtain r where r: "searchLegal (minimum + 1) = Some (Inr r)" "minimum + 1 \<le> r"
        "r \<le> B" "legalSize r" "\<forall>k. minimum + 1 \<le> k \<and> k < r \<longrightarrow> \<not> legalSize k"
      by blast
    have "\<not> legalSize k" if "minimum \<le> k \<and> k < r" for k
      using that r(5) False by (cases "k = minimum") auto
    with r unfold show ?thesis by auto
  qed
qed

text \<open>
  From a candidate below 1 the loop walks up to 1: nothing is divided out of a candidate
  \<open>\<le> 1\<close>, and 1 is accepted.
\<close>

lemma factorLoop_small: "u \<le> 1 \<Longrightarrow> factorLoop 2 u = Some u"
  by (simp add: factorLoop_unroll divideOut.simps)

lemma searchLegal_below:
  assumes "INT_MIN \<le> minimum" "minimum \<le> 1"
  shows "searchLegal minimum = Some (Inr 1)"
  using assms
proof (induction "nat (1 - minimum)" arbitrary: minimum rule: less_induct)
  case less
  show ?case
  proof (cases "minimum = 1")
    case True
    then show ?thesis using factorLoop_small [of 1] by (subst searchLegal.simps) simp
  next
    case False
    have "int32 (minimum + 1) = minimum + 1"
      using less.prems False by (intro int32_id) (simp_all add: INT_MAX_def)
    then have "searchLegal minimum = searchLegal (minimum + 1)"
      using factorLoop_small [of minimum] less.prems False by (subst searchLegal.simps) simp
    moreover have "searchLegal (minimum + 1) = Some (Inr 1)"
      using False less.prems by (intro less.hyps) auto
    ultimately show ?thesis by simp
  qed
qed

text \<open>
  With no legal size left up to \<open>INT_MAX\<close> the candidate reaches \<open>INT_MAX\<close>, the increment
  takes it to \<open>INT_MIN\<close>, and the loop walks up to 1.
\<close>

lemma searchLegal_wraps:
  assumes "1 \<le> minimum" "minimum \<le> INT_MAX"
    and "\<forall>k. minimum \<le> k \<and> k \<le> INT_MAX \<longrightarrow> \<not> legalSize k"
  shows "searchLegal minimum = Some (Inr 1)"
  using assms
proof (induction "nat (INT_MAX - minimum)" arbitrary: minimum rule: less_induct)
  case less
  obtain u' where u': "factorLoop 2 minimum = Some u'" "u' = 1 \<longleftrightarrow> legalSize minimum"
    using factorLoop_spec [OF less.prems(1)] by blast
  have nl: "\<not> legalSize minimum" using less.prems by auto
  show ?case
  proof (cases "minimum = INT_MAX")
    case True
    have "int32 (minimum + 1) = INT_MIN"
      using True by (simp add: int32_def INT_MAX_def INT_MIN_def)
    then have "searchLegal minimum = searchLegal INT_MIN"
      using u' nl by (subst searchLegal.simps) simp
    moreover have "searchLegal INT_MIN = Some (Inr 1)"
      by (rule searchLegal_below) (simp_all add: INT_MIN_def)
    ultimately show ?thesis by simp
  next
    case False
    have "int32 (minimum + 1) = minimum + 1"
      using less.prems False by (intro int32_id) (simp_all add: INT_MIN_def)
    then have "searchLegal minimum = searchLegal (minimum + 1)"
      using u' nl by (subst searchLegal.simps) simp
    moreover have "searchLegal (minimum + 1) = Some (Inr 1)"
      using False less.prems by (intro less.hyps) auto
    ultimately show ?thesis by simp
  qed
qed

lemma legalSize_largest: "legalSize 2144153025"
proof -
  have "(2144153025::int) = 3 ^ 6 * 5 ^ 2 * 7 ^ 6" by simp
  then show ?thesis
    by (auto simp only: intro!: legalSize_mult legalSize_power legalSize_3 legalSize_5 legalSize_7)
qed

lemma not_legal_INT_MAX: "\<not> legalSize 2147483647"
proof
  assume "legalSize 2147483647"
  from legalSize_cases [OF this] show False by presburger
qed

subsection \<open>The loops of getSmallestRadix\<close>

lemma whileDivides_spec:
  assumes "2 \<le> r" "u \<noteq> 0"
  shows "\<exists>k u'. whileDivides r mr u = Some (if k = 0 then mr else r, u') \<and>
           whileDividesTrace r tr u = Some (tr @ replicate k r, u') \<and>
           u = u' * r ^ k \<and> \<not> r dvd u' \<and> u' \<noteq> 0"
  using assms(2)
proof (induction "nat \<bar>u\<bar>" arbitrary: u mr tr rule: less_induct)
  case less
  show ?case
  proof (cases "r dvd u")
    case True
    then obtain q where q: "u = r * q" ..
    with less.prems assms(1) have q0: "q \<noteq> 0" and qu: "u div r = q" by auto
    have "\<bar>q\<bar> < \<bar>u\<bar>"
      using q q0 assms(1) by (simp add: abs_mult)
    then have "nat \<bar>u div r\<bar> < nat \<bar>u\<bar>" using qu by simp
    from less.hyps [OF this, of r "tr @ [r]"] q0 qu
    obtain k u' where IH: "whileDivides r r (u div r) = Some (r, u')"
        "whileDividesTrace r (tr @ [r]) (u div r) = Some ((tr @ [r]) @ replicate k r, u')"
        "u div r = u' * r ^ k" "\<not> r dvd u'" "u' \<noteq> 0"
      by (auto split: if_splits)
    have "whileDivides r mr u = Some (if Suc k = 0 then mr else r, u')"
      using True IH(1) by (subst whileDivides.simps) (simp add: c_mod_eq_0_iff c_div_exact)
    moreover have "whileDividesTrace r tr u = Some (tr @ replicate (Suc k) r, u')"
      using True IH(2) by (subst whileDividesTrace.simps) (simp add: c_mod_eq_0_iff c_div_exact)
    moreover have "u = u' * r ^ Suc k"
      using IH(3) q qu by simp
    ultimately show ?thesis using IH(4,5) by blast
  next
    case False
    then have "whileDivides r mr u = Some (if (0::nat) = 0 then mr else r, u)"
      by (subst whileDivides.simps) (simp add: c_mod_eq_0_iff)
    moreover have "whileDividesTrace r tr u = Some (tr @ replicate 0 r, u)"
      using False by (subst whileDividesTrace.simps) (simp add: c_mod_eq_0_iff)
    moreover have "u = u * r ^ 0" by simp
    ultimately show ?thesis using False less.prems by blast
  qed
qed

lemma getSmallestRadix_spec:
  assumes "size' \<noteq> 0"
  obtains k7 k5 k4 k3 k2 u1 u2 u3 u4 u5 where
    "getSmallestRadix size' =
       Some (if k2 \<noteq> 0 then 2 else if k3 \<noteq> 0 then 3 else if k4 \<noteq> 0 then 4
             else if k5 \<noteq> 0 then 5 else if k7 \<noteq> 0 then 7 else 1)"
    "getSmallestRadixTrace size' =
       Some (replicate k7 7 @ replicate k5 5 @ replicate k4 4 @ replicate k3 3 @ replicate k2 2)"
    "size' = u1 * 7 ^ k7" "\<not> 7 dvd u1"
    "u1 = u2 * 5 ^ k5" "\<not> 5 dvd u2"
    "u2 = u3 * 4 ^ k4" "\<not> 4 dvd u3"
    "u3 = u4 * 3 ^ k3" "\<not> 3 dvd u4"
    "u4 = u5 * 2 ^ k2" "\<not> 2 dvd u5" "u5 \<noteq> 0"
proof -
  define m7 :: int where "m7 = 1"
  obtain k7 u1 where 7: "whileDivides 7 1 size' = Some (if k7 = 0 then 1 else 7, u1)"
      "whileDividesTrace 7 [] size' = Some ([] @ replicate k7 7, u1)"
      "size' = u1 * 7 ^ k7" "\<not> 7 dvd u1" "u1 \<noteq> 0"
    using whileDivides_spec [of 7 size' 1 "[]"] assms by auto
  define m5 :: int where "m5 = (if k7 = 0 then 1 else 7)"
  obtain k5 u2 where 5: "whileDivides 5 m5 u1 = Some (if k5 = 0 then m5 else 5, u2)"
      "whileDividesTrace 5 (replicate k7 7) u1 = Some (replicate k7 7 @ replicate k5 5, u2)"
      "u1 = u2 * 5 ^ k5" "\<not> 5 dvd u2" "u2 \<noteq> 0"
    using whileDivides_spec [of 5 u1 m5 "replicate k7 7"] 7(5) by auto
  define m4 :: int where "m4 = (if k5 = 0 then m5 else 5)"
  obtain k4 u3 where 4: "whileDivides 4 m4 u2 = Some (if k4 = 0 then m4 else 4, u3)"
      "whileDividesTrace 4 (replicate k7 7 @ replicate k5 5) u2 =
         Some ((replicate k7 7 @ replicate k5 5) @ replicate k4 4, u3)"
      "u2 = u3 * 4 ^ k4" "\<not> 4 dvd u3" "u3 \<noteq> 0"
    using whileDivides_spec [of 4 u2 m4 "replicate k7 7 @ replicate k5 5"] 5(5) by auto
  define m3 :: int where "m3 = (if k4 = 0 then m4 else 4)"
  obtain k3 u4 where 3: "whileDivides 3 m3 u3 = Some (if k3 = 0 then m3 else 3, u4)"
      "whileDividesTrace 3 (replicate k7 7 @ replicate k5 5 @ replicate k4 4) u3 =
         Some ((replicate k7 7 @ replicate k5 5 @ replicate k4 4) @ replicate k3 3, u4)"
      "u3 = u4 * 3 ^ k3" "\<not> 3 dvd u4" "u4 \<noteq> 0"
    using whileDivides_spec [of 3 u3 m3 "replicate k7 7 @ replicate k5 5 @ replicate k4 4"] 4(5)
    by auto
  define m2 :: int where "m2 = (if k3 = 0 then m3 else 3)"
  obtain k2 u5 where 2: "whileDivides 2 m2 u4 = Some (if k2 = 0 then m2 else 2, u5)"
      "whileDividesTrace 2 (replicate k7 7 @ replicate k5 5 @ replicate k4 4 @ replicate k3 3) u4 =
         Some ((replicate k7 7 @ replicate k5 5 @ replicate k4 4 @ replicate k3 3) @ replicate k2 2, u5)"
      "u4 = u5 * 2 ^ k2" "\<not> 2 dvd u5" "u5 \<noteq> 0"
    using whileDivides_spec
      [of 2 u4 m2 "replicate k7 7 @ replicate k5 5 @ replicate k4 4 @ replicate k3 3"] 3(5)
    by auto
  have "getSmallestRadix size' = Some (if k2 = 0 then m2 else 2)"
    unfolding getSmallestRadix_def
    using 7(1) 5(1) 4(1) 3(1) 2(1) by (simp add: m5_def m4_def m3_def m2_def)
  then have a: "getSmallestRadix size' =
       Some (if k2 \<noteq> 0 then 2 else if k3 \<noteq> 0 then 3 else if k4 \<noteq> 0 then 4
             else if k5 \<noteq> 0 then 5 else if k7 \<noteq> 0 then 7 else 1)"
    by (simp add: m5_def m4_def m3_def m2_def)
  have b: "getSmallestRadixTrace size' =
       Some (replicate k7 7 @ replicate k5 5 @ replicate k4 4 @ replicate k3 3 @ replicate k2 2)"
    unfolding getSmallestRadixTrace_def
    using 7(2) 5(2) 4(2) 3(2) 2(2) by simp
  from a b 7(3,4) 5(3,4) 4(3,4) 3(3,4) 2(3,4,5) show ?thesis by (rule that)
qed

subsection \<open>The stage loop\<close>

lemma firstRadix_cases:
  "firstRadix L =
     (if 7 dvd L then Some 7 else if 5 dvd L then Some 5 else if 4 dvd L then Some 4
      else if 3 dvd L then Some 3 else if 2 dvd L then Some 2 else None)"
  by (simp add: firstRadix_def)

lemma selectRadix_firstRadix:
  "selectRadix ctx zs L =
     (case firstRadix L of
        Some r \<Rightarrow> Inr r
      | None \<Rightarrow> Inl (OpenMMException (''Illegal size for FFT: '' @ intToString ctx zs)))"
  by (simp add: selectRadix_def firstRadix_cases c_mod_eq_0_iff)

lemma firstRadix_SomeD:
  "firstRadix L = Some r \<Longrightarrow> r \<in> {7, 5, 4, 3, 2} \<and> r dvd L"
  by (auto simp: firstRadix_cases split: if_splits)

lemma firstRadix_legal:
  assumes "legalSize L" "1 < L" shows "\<exists>r. firstRadix L = Some r"
  using legalSize_cases [OF assms(1)] assms(2) by (auto simp: firstRadix_cases)

lemma firstRadix_None_illegal:
  assumes "firstRadix L = None" "1 < L" shows "\<not> legalSize L"
  using firstRadix_legal assms by fastforce

lemma legalSize_radix: "r \<in> {7, 5, 4, 3, 2} \<Longrightarrow> legalSize r"
  using legalSize_2 legalSize_3 legalSize_4 legalSize_5 legalSize_7 by auto

lemma stageLoop_step:
  assumes "1 < L" "firstRadix L = Some r"
  shows "stageLoop ctx zs tpb bpg stage L m src =
     stageLoop ctx zs tpb bpg (stage + 1) (L div r) (m * r)
       (src @ [\<lparr>pass_number = stage + 1, pass_radix = r,
                pass_input = c_mod stage 2, pass_output = 1 - c_mod stage 2,
                pass_L = L div r, pass_m = m,
                pass_guard = (if L div r * m < tpb then Some (bpg * (L div r) * m) else None)\<rparr>])"
proof -
  from firstRadix_SomeD [OF assms(2)] have "c_div L r = L div r"
    by (simp add: c_div_exact)
  with assms show ?thesis
    by (subst stageLoop.simps) (simp add: selectRadix_firstRadix)
qed

lemma stageLoop_throw:
  assumes "1 < L" "firstRadix L = None"
  shows "stageLoop ctx zs tpb bpg stage L m src =
     Inl (OpenMMException (''Illegal size for FFT: '' @ intToString ctx zs))"
  using assms by (subst stageLoop.simps) (simp add: selectRadix_firstRadix)

lemma stageLoop_done:
  "L \<le> 1 \<Longrightarrow> stageLoop ctx zs tpb bpg stage L m src = Inr (stage, L, m, src)"
  by (subst stageLoop.simps) simp

lemma stageLoop_legal:
  assumes "legalSize L"
  shows "\<exists>ps. stageLoop ctx zs tpb bpg stage L m src =
             Inr (stage + int (length ps), 1, m * L, src @ ps) \<and>
           prod_list (map pass_radix ps) = L \<and> followsPriority L (map pass_radix ps)"
  using assms
proof (induction "nat L" arbitrary: L stage m src rule: less_induct)
  case less
  show ?case
  proof (cases "L = 1")
    case True
    then have "stageLoop ctx zs tpb bpg stage L m src = Inr (stage + int (length []), 1, m * L, src @ [])"
      by (simp add: stageLoop_done)
    moreover have "prod_list (map pass_radix []) = L" "followsPriority L (map pass_radix [])"
      using True by simp_all
    ultimately show ?thesis by blast
  next
    case False
    with less.prems have L: "1 < L" by (simp add: legalSize_def)
    then obtain r where r: "firstRadix L = Some r"
      using firstRadix_legal less.prems by blast
    from firstRadix_SomeD [OF r] have rd: "r dvd L" and r1: "1 < r" by auto
    define p where "p = \<lparr>pass_number = stage + 1, pass_radix = r,
                pass_input = c_mod stage 2, pass_output = 1 - c_mod stage 2,
                pass_L = L div r, pass_m = m,
                pass_guard = (if L div r * m < tpb then Some (bpg * (L div r) * m) else None)\<rparr>"
    have leg: "legalSize (L div r)" using less.prems rd r1 by (simp add: legalSize_div)
    have "L div r < L" using L r1 by (simp add: int_div_less_self)
    then have "nat (L div r) < nat L" using L by simp
    from less.hyps [OF this leg, of "stage + 1" "m * r" "src @ [p]"]
    obtain ps where ps: "stageLoop ctx zs tpb bpg (stage + 1) (L div r) (m * r) (src @ [p]) =
          Inr (stage + 1 + int (length ps), 1, m * r * (L div r), (src @ [p]) @ ps)"
        "prod_list (map pass_radix ps) = L div r" "followsPriority (L div r) (map pass_radix ps)"
      by blast
    have Lr: "r * (L div r) = L" using rd by simp
    have "stageLoop ctx zs tpb bpg stage L m src =
        Inr (stage + int (length (p # ps)), 1, m * L, src @ (p # ps))"
      using stageLoop_step [OF L r, of ctx zs tpb bpg stage m src] ps(1) Lr
      by (simp add: p_def mult.assoc)
    moreover have "prod_list (map pass_radix (p # ps)) = L"
      using ps(2) Lr by (simp add: p_def)
    moreover have "followsPriority L (map pass_radix (p # ps))"
      using ps(3) L r by (simp add: p_def)
    ultimately show ?thesis by blast
  qed
qed

lemma remains_throws:
  assumes "remains L L'" "1 < L'" "firstRadix L' = None"
  shows "stageLoop ctx zs tpb bpg stage L m src =
     Inl (OpenMMException (''Illegal size for FFT: '' @ intToString ctx zs))"
  using assms
proof (induction arbitrary: stage m src rule: remains.induct)
  case (now L)
  then show ?case by (simp add: stageLoop_throw)
next
  case (later L r L')
  then show ?case by (simp add: stageLoop_step)
qed

lemma throws_remains:
  assumes "stageLoop ctx zs tpb bpg stage L m src = Inl e"
  shows "e = OpenMMException (''Illegal size for FFT: '' @ intToString ctx zs) \<and>
         (\<exists>L'. remains L L' \<and> 1 < L' \<and> firstRadix L' = None)"
  using assms
proof (induction "nat L" arbitrary: L stage m src rule: less_induct)
  case less
  have L: "1 < L" using less.prems by (cases "1 < L") (simp_all add: stageLoop_done)
  show ?case
  proof (cases "firstRadix L")
    case None
    with L less.prems have "e = OpenMMException (''Illegal size for FFT: '' @ intToString ctx zs)"
      by (simp add: stageLoop_throw)
    moreover have "remains L L" by (rule remains.now)
    ultimately show ?thesis using L None by blast
  next
    case (Some r)
    from firstRadix_SomeD [OF Some] have r1: "1 < r" by auto
    have "L div r < L" using L r1 by (simp add: int_div_less_self)
    then have lt: "nat (L div r) < nat L" using L by simp
    from less.prems have "stageLoop ctx zs tpb bpg (stage + 1) (L div r) (m * r)
       (src @ [\<lparr>pass_number = stage + 1, pass_radix = r,
                pass_input = c_mod stage 2, pass_output = 1 - c_mod stage 2,
                pass_L = L div r, pass_m = m,
                pass_guard = (if L div r * m < tpb then Some (bpg * (L div r) * m) else None)\<rparr>])
       = Inl e"
      by (simp add: stageLoop_step [OF L Some])
    from less.hyps [OF lt this]
    obtain L' where "e = OpenMMException (''Illegal size for FFT: '' @ intToString ctx zs)"
      "remains (L div r) L'" "1 < L'" "firstRadix L' = None" by blast
    moreover from this(2) have "remains L L'" using L Some by (rule remains.later [rotated 2])
    ultimately show ?thesis by blast
  qed
qed

lemma remains_illegal:
  assumes "remains L L'" "1 < L'" "firstRadix L' = None"
  shows "1 < L \<and> \<not> legalSize L"
  using assms
proof (induction rule: remains.induct)
  case (now L)
  then show ?case by (simp add: firstRadix_None_illegal)
next
  case (later L r L')
  then have "\<not> legalSize (L div r)" by simp
  moreover from firstRadix_SomeD [OF later.hyps(2)] have "r dvd L" "0 < r" by auto
  ultimately have "\<not> legalSize L" using legalSize_div by blast
  with later.hyps(1) show ?case by simp
qed

lemma illegal_remains:
  assumes "1 < L" "\<not> legalSize L"
  shows "\<exists>L'. remains L L' \<and> 1 < L' \<and> firstRadix L' = None"
  using assms
proof (induction "nat L" arbitrary: L rule: less_induct)
  case less
  show ?case
  proof (cases "firstRadix L")
    case None
    then show ?thesis using less.prems(1) remains.now by blast
  next
    case (Some r)
    from firstRadix_SomeD [OF Some] have r: "r \<in> {7, 5, 4, 3, 2}" "r dvd L" "1 < r" by auto
    have Lr: "r * (L div r) = L" using r(2) by simp
    have nl: "\<not> legalSize (L div r)"
    proof
      assume "legalSize (L div r)"
      with legalSize_radix [OF r(1)] have "legalSize (r * (L div r))" by (rule legalSize_mult)
      with Lr less.prems(2) show False by simp
    qed
    have "0 < L div r" using r less.prems(1) by (intro exact_div_pos) simp_all
    with nl legalSize_1 have q1: "1 < L div r" by (cases "L div r = 1") auto
    have "L div r < L" using less.prems(1) r(3) by (simp add: int_div_less_self)
    then have "nat (L div r) < nat L" using less.prems(1) by simp
    from less.hyps [OF this q1 nl] obtain L' where
      "remains (L div r) L'" "1 < L'" "firstRadix L' = None" by blast
    moreover from this(1) have "remains L L'"
      using less.prems(1) Some by (rule remains.later [rotated 2])
    ultimately show ?thesis by blast
  qed
qed

lemma stageLoop_throws_iff:
  "stageLoop ctx zs tpb bpg stage L m src = Inl e \<longleftrightarrow>
     e = OpenMMException (''Illegal size for FFT: '' @ intToString ctx zs) \<and> 1 < L \<and> \<not> legalSize L"
  using throws_remains [of ctx zs tpb bpg stage L m src e]
    remains_throws [of L _ ctx zs tpb bpg stage m src]
    remains_illegal [of L] illegal_remains [of L]
  by blast

lemma whileDivides_zero:
  assumes "whileDivides r mr u = Some y" shows "u \<noteq> 0"
proof (rule whileDivides.raw_induct [where P = "\<lambda>r mr u y. u \<noteq> 0", OF _ assms])
  fix f :: "int \<Rightarrow> int \<Rightarrow> int \<Rightarrow> (int \<times> int) option" and r mr u :: int and y :: "int \<times> int"
  assume IH: "\<And>r mr u y. f r mr u = Some y \<Longrightarrow> u \<noteq> 0"
    and eq: "(if c_mod u r = 0 then f r r (c_div u r) else Some (mr, u)) = Some y"
  show "u \<noteq> 0"
  proof
    assume "u = 0"
    with eq have "f r r 0 = Some y" by (simp add: c_mod_def c_div_def)
    from IH [OF this] show False by simp
  qed
qed

lemma getSmallestRadix_zero: "getSmallestRadix 0 = None"
proof -
  have "whileDivides 7 1 0 = None"
    using whileDivides_zero [of 7 1 0] by (cases "whileDivides 7 1 0") auto
  then show ?thesis by (simp add: getSmallestRadix_def)
qed

lemma getSmallestRadix_returns:
  assumes "zs \<noteq> 0"
  shows "\<exists>r. getSmallestRadix zs = Some r \<and> r \<in> {1, 2, 3, 4, 5, 7} \<and> r dvd zs"
proof -
  from assms obtain k7 k5 k4 k3 k2 u1 u2 u3 u4 u5 where *:
    "getSmallestRadix zs =
       Some (if k2 \<noteq> 0 then 2 else if k3 \<noteq> 0 then 3 else if k4 \<noteq> 0 then 4
             else if k5 \<noteq> 0 then 5 else if k7 \<noteq> 0 then 7 else 1)"
    "zs = u1 * 7 ^ k7" "u1 = u2 * 5 ^ k5" "u2 = u3 * 4 ^ k4" "u3 = u4 * 3 ^ k3" "u4 = u5 * 2 ^ k2"
    by (rule getSmallestRadix_spec)
  have d: "r dvd u * r ^ k" if "k \<noteq> 0" for r u :: int and k :: nat
    using that by (cases k) simp_all
  have d43: "u4 dvd u3" and d32: "u3 dvd u2" and d21: "u2 dvd u1" and d10: "u1 dvd zs"
    using * by simp_all
  have "2 dvd zs" if "k2 \<noteq> 0"
    using d [OF that, of 2 u5] *(6) d43 d32 d21 d10 by (meson dvd_trans)
  moreover have "3 dvd zs" if "k3 \<noteq> 0"
    using d [OF that, of 3 u4] *(5) d32 d21 d10 by (meson dvd_trans)
  moreover have "4 dvd zs" if "k4 \<noteq> 0"
    using d [OF that, of 4 u3] *(4) d21 d10 by (meson dvd_trans)
  moreover have "5 dvd zs" if "k5 \<noteq> 0"
    using d [OF that, of 5 u2] *(3) d10 by (meson dvd_trans)
  moreover have "7 dvd zs" if "k7 \<noteq> 0"
    using d [OF that, of 7 u1] *(2) by simp
  ultimately show ?thesis using *(1) by auto
qed

subsection \<open>The smallest radix\<close>

lemma Min_radices:
  "(if replicate k7 (7::int) @ replicate k5 5 @ replicate k4 4 @ replicate k3 3 @ replicate k2 2 = []
    then 1
    else Min (set (replicate k7 (7::int) @ replicate k5 5 @ replicate k4 4 @ replicate k3 3 @ replicate k2 2))) =
   (if k2 \<noteq> 0 then 2 else if k3 \<noteq> 0 then 3 else if k4 \<noteq> 0 then 4
    else if k5 \<noteq> 0 then 5 else if k7 \<noteq> 0 then 7 else 1)"
proof -
  have fin: "finite (set (replicate k7 (7::int) @ replicate k5 5 @ replicate k4 4 @ replicate k3 3))"
    by simp
  show ?thesis
    by (cases "k7 = 0"; cases "k5 = 0"; cases "k4 = 0"; cases "k3 = 0"; cases "k2 = 0")
       (simp_all add: set_replicate_conv_if Un_commute insert_commute)
qed

lemma getSmallestRadix_trace:
  assumes "size' \<noteq> 0"
  shows "\<exists>trace. getSmallestRadixTrace size' = Some trace \<and>
           getSmallestRadix size' = Some (if trace = [] then 1 else Min (set trace))"
proof -
  from assms obtain k7 k5 k4 k3 k2 where
    "getSmallestRadix size' =
       Some (if k2 \<noteq> 0 then 2 else if k3 \<noteq> 0 then 3 else if k4 \<noteq> 0 then 4
             else if k5 \<noteq> 0 then 5 else if k7 \<noteq> 0 then 7 else 1)"
    "getSmallestRadixTrace size' =
       Some (replicate k7 7 @ replicate k5 5 @ replicate k4 4 @ replicate k3 3 @ replicate k2 2)"
    by (rule getSmallestRadix_spec)
  then show ?thesis using Min_radices [of k7 k5 k4 k3 k2] by simp
qed

subsection \<open>createKernel and the stage decomposition\<close>

lemma createKernel_unfold:
  assumes "getSmallestRadix zs = Some r"
  shows "createKernel ctx xs ys zs axis fwd iir =
     (case stageLoop ctx zs (c_div zs r)
             (max 1 (c_div (if getUseDoublePrecision ctx then 128 else 256) (c_div zs r))) 0 zs 1 [] of
        Inl e \<Rightarrow> Some (Inl e)
      | Inr (stage, L, m, source) \<Rightarrow>
          Some (Inr
            (Function
               (FFTModule source
                  (finalWrite (iir \<and> axis = 2 \<and> fwd)
                     (if iir \<and> axis = 2 \<and> \<not> fwd then ''.x'' else '''') stage)
                  [(''XSIZE'', intToString ctx xs),
                   (''YSIZE'', intToString ctx ys),
                   (''ZSIZE'', intToString ctx zs),
                   (''BLOCKS_PER_GROUP'', intToString ctx
                      (max 1 (c_div (if getUseDoublePrecision ctx then 128 else 256) (c_div zs r)))),
                   (''THREADS_PER_BLOCK'', intToString ctx (c_div zs r)),
                   (''SIGN'', if fwd then ''1'' else ''-1''),
                   (''INPUT_TYPE'', if iir \<and> axis = 0 \<and> fwd then ''real'' else ''real2''),
                   (''OUTPUT_TYPE'', if iir \<and> axis = 2 \<and> \<not> fwd then ''real'' else ''real2''),
                   (''INPUT_IS_REAL'', if iir \<and> axis = 0 \<and> fwd then ''1'' else ''0''),
                   (''INPUT_IS_PACKED'', if iir \<and> axis = 0 \<and> \<not> fwd then ''1'' else ''0''),
                   (''OUTPUT_IS_PACKED'', if iir \<and> axis = 2 \<and> fwd then ''1'' else ''0'')])
               ''execFFT'',
             max 1 (c_div (if getUseDoublePrecision ctx then 128 else 256) (c_div zs r)) * c_div zs r)))"
proof (cases "stageLoop ctx zs (c_div zs r)
             (max 1 (c_div (if getUseDoublePrecision ctx then 128 else 256) (c_div zs r))) 0 zs 1 []")
  case (Inl e)
  then show ?thesis
    using assms by (simp add: createKernel_def Let_def split del: if_split)
next
  case (Inr res)
  obtain stage L m source where "res = (stage, L, m, source)" by (cases res)
  with Inr show ?thesis
    using assms by (simp add: createKernel_def Let_def split del: if_split)
qed

lemma createKernel_legal:
  assumes "legalSize Z"
  shows "\<exists>kernel threads. createKernel ctx xs ys Z axis fwd iir = Some (Inr (kernel, threads)) \<and>
           prod_list (map pass_radix (passes kernel)) = Z \<and>
           followsPriority Z (map pass_radix (passes kernel))"
proof -
  from assms have "Z \<noteq> 0" by (auto simp: legalSize_def)
  then obtain r where r: "getSmallestRadix Z = Some r"
    using getSmallestRadix_returns by blast
  obtain ps where "stageLoop ctx Z (c_div Z r)
             (max 1 (c_div (if getUseDoublePrecision ctx then 128 else 256) (c_div Z r))) 0 Z 1 [] =
             Inr (0 + int (length ps), 1, 1 * Z, [] @ ps)"
      "prod_list (map pass_radix ps) = Z" "followsPriority Z (map pass_radix ps)"
    using stageLoop_legal [OF assms] by blast
  then show ?thesis
    by (simp add: createKernel_unfold [OF r])
qed

lemma legalSize_28: "legalSize 28"
  using legalSize_mult [OF legalSize_4 legalSize_7] by simp

text \<open>
  C1: for every axis length \<open>Z\<close> whose prime factors all lie in \<open>{2, 3, 5, 7}\<close>, the stage loop
  of \<^verbatim>\<open>createKernel\<close> ends with \<^verbatim>\<open>L == 1\<close>, each radix it selects is the first of
  7, 5, 4, 3, 2 that divides the current \<^verbatim>\<open>L\<close>, and the product of the selected radices is
  \<open>Z\<close>; \<^verbatim>\<open>createKernel\<close> returns a kernel made of these passes.
\<close>

theorem stage_decomposition_complete:
  assumes "legalSize Z"
  shows "(\<exists>stage m source.
            stageLoop ctx Z threadsPerBlock blocksPerGroup 0 Z 1 [] = Inr (stage, 1, m, source) \<and>
            stage = int (length source) \<and>
            prod_list (map pass_radix source) = Z \<and>
            followsPriority Z (map pass_radix source)) \<and>
         (\<exists>kernel threads.
            createKernel ctx xs ys Z axis forward inputIsReal = Some (Inr (kernel, threads)) \<and>
            prod_list (map pass_radix (passes kernel)) = Z \<and>
            followsPriority Z (map pass_radix (passes kernel)))"
proof -
  obtain ps where "stageLoop ctx Z threadsPerBlock blocksPerGroup 0 Z 1 [] =
             Inr (0 + int (length ps), 1, 1 * Z, [] @ ps)"
      "prod_list (map pass_radix ps) = Z" "followsPriority Z (map pass_radix ps)"
    using stageLoop_legal [OF assms] by blast
  then have "\<exists>stage m source.
            stageLoop ctx Z threadsPerBlock blocksPerGroup 0 Z 1 [] = Inr (stage, 1, m, source) \<and>
            stage = int (length source) \<and>
            prod_list (map pass_radix source) = Z \<and>
            followsPriority Z (map pass_radix source)"
    by simp
  with createKernel_legal [OF assms] show ?thesis by blast
qed

theorem stage_decomposition_complete_witness:
  "legalSize 28 \<and>
   (\<exists>stage m source.
      stageLoop singlePrecision 28 7 36 0 28 1 [] = Inr (stage, 1, m, source) \<and>
      stage = int (length source) \<and>
      prod_list (map pass_radix source) = 28 \<and>
      followsPriority 28 (map pass_radix source)) \<and>
   (\<exists>kernel threads.
      createKernel singlePrecision 4 4 28 0 True False = Some (Inr (kernel, threads)) \<and>
      prod_list (map pass_radix (passes kernel)) = 28 \<and>
      followsPriority 28 (map pass_radix (passes kernel)))"
  using stage_decomposition_complete [OF legalSize_28] legalSize_28 by simp

text \<open>
  C3, as stated: \<^verbatim>\<open>getSmallestRadix(28)\<close> returns 7. It returns 4: the loop for 7 sets
  \<^verbatim>\<open>minRadix\<close> to 7 and leaves 4, and the loop for 4 then sets it to 4.
\<close>

theorem getSmallestRadix_28_is_not_7:
  "getSmallestRadix 28 = Some 4 \<and> getSmallestRadix 28 \<noteq> Some 7"
  by (simp add: getSmallestRadix_def whileDivides.simps c_mod_def c_div_def)

text \<open>
  C3, amended: \<^verbatim>\<open>getSmallestRadix(28)\<close> returns 4 and \<^verbatim>\<open>getSmallestRadix(16)\<close> returns 4;
  for every size other than 0 the function divides out 7, 5, 4, 3, 2 in this order and
  returns the smallest radix it divided out (1 when it divided out none).
\<close>

theorem getSmallestRadix_smallest:
  "getSmallestRadix 28 = Some 4 \<and> getSmallestRadixTrace 28 = Some [7, 4] \<and>
   getSmallestRadix 16 = Some 4 \<and> getSmallestRadixTrace 16 = Some [4, 4] \<and>
   (\<forall>size'. size' \<noteq> 0 \<longrightarrow>
      (\<exists>trace. getSmallestRadixTrace size' = Some trace \<and>
         getSmallestRadix size' = Some (if trace = [] then 1 else Min (set trace))))"
proof -
  have "getSmallestRadix 28 = Some 4" "getSmallestRadix 16 = Some 4"
    by (simp_all add: getSmallestRadix_def whileDivides.simps c_mod_def c_div_def)
  moreover have "getSmallestRadixTrace 28 = Some [7, 4]" "getSmallestRadixTrace 16 = Some [4, 4]"
    by (simp_all add: getSmallestRadixTrace_def whileDividesTrace.simps c_mod_def c_div_def)
  ultimately show ?thesis using getSmallestRadix_trace by simp
qed

theorem getSmallestRadix_smallest_witness:
  "(45::int) \<noteq> 0 \<and>
   (\<exists>trace. getSmallestRadixTrace 45 = Some trace \<and>
      getSmallestRadix 45 = Some (if trace = [] then 1 else Min (set trace))) \<and>
   getSmallestRadix 45 = Some 3"
proof -
  have "getSmallestRadix 45 = Some 3"
    by (simp add: getSmallestRadix_def whileDivides.simps c_mod_def c_div_def)
  then show ?thesis
    using getSmallestRadix_smallest [THEN conjunct2, THEN conjunct2, THEN conjunct2, THEN conjunct2,
        rule_format, of 45]
    by simp
qed

subsection \<open>findLegalDimension\<close>

lemma findLegalDimension_11: "findLegalDimension 11 = Some (Inr 12)"
  by (simp add: findLegalDimension_def searchLegal.simps factorLoop_unroll int32_def
        divideOut.simps c_mod_def c_div_def)

text \<open>
  C2, as stated: for every minimum \<open>\<ge> 1\<close> the function returns the smallest legal size at or
  above it, so a result \<open>\<ge> minimum\<close>. At \<open>INT_MAX\<close> = 2147483647 no \<^verbatim>\<open>int\<close> can be that
  result: the only \<^verbatim>\<open>int\<close> at or above it is \<open>INT_MAX\<close> itself, which is not legal. The
  candidate is rejected, \<^verbatim>\<open>minimum++\<close> leaves the range of \<^verbatim>\<open>int\<close>, and the search
  resumes at \<open>INT_MIN\<close> and returns 1, which is below the minimum.
\<close>

theorem findLegalDimension_INT_MAX:
  "findLegalDimension 2147483647 = Some (Inr 1) \<and> (1::int) < 2147483647 \<and>
   INT_MAX = 2147483647 \<and> \<not> legalSize 2147483647"
proof -
  have "\<forall>k. 2147483647 \<le> k \<and> k \<le> INT_MAX \<longrightarrow> \<not> legalSize k"
    using not_legal_INT_MAX by (auto simp: INT_MAX_def)
  then have "searchLegal 2147483647 = Some (Inr 1)"
    by (intro searchLegal_wraps) (simp_all add: INT_MAX_def)
  then have "findLegalDimension 2147483647 = Some (Inr 1)"
    by (simp add: findLegalDimension_def)
  then show ?thesis using not_legal_INT_MAX by (simp add: INT_MAX_def)
qed

text \<open>
  C2, amended: \<^verbatim>\<open>findLegalDimension(minimum)\<close> returns 1 for every minimum \<open>< 1\<close>. A candidate
  \<open>\<ge> 1\<close> is reduced to 1 by the trial divisions with 2, ..., 7 exactly when it is legal. For
  every minimum \<open>\<ge> 1\<close> with a legal size between it and \<open>INT_MAX\<close> (as there is for every
  minimum up to 2144153025, itself legal) the function returns the smallest legal size
  \<open>\<ge> minimum\<close>, so the result is legal and \<open>\<ge> minimum\<close>.
\<close>

theorem findLegalDimension_smallest_legal:
  "(minimum < 1 \<longrightarrow> findLegalDimension minimum = Some (Inr 1)) \<and>
   (1 \<le> minimum \<longrightarrow> (\<exists>u. factorLoop 2 minimum = Some u \<and> (u = 1 \<longleftrightarrow> legalSize minimum))) \<and>
   (1 \<le> minimum \<and> minimum \<le> B \<and> B \<le> INT_MAX \<and> legalSize B \<longrightarrow>
      (\<exists>r. findLegalDimension minimum = Some (Inr r) \<and> minimum \<le> r \<and> r \<le> B \<and> legalSize r \<and>
           (\<forall>k. minimum \<le> k \<and> k < r \<longrightarrow> \<not> legalSize k))) \<and>
   (1 \<le> minimum \<and> minimum \<le> 2144153025 \<longrightarrow>
      (\<exists>r. findLegalDimension minimum = Some (Inr r) \<and> minimum \<le> r \<and> r \<le> 2144153025 \<and>
           legalSize r \<and> (\<forall>k. minimum \<le> k \<and> k < r \<longrightarrow> \<not> legalSize k))) \<and>
   legalSize 2144153025 \<and> 2144153025 \<le> INT_MAX"
proof (intro conjI impI)
  assume "minimum < 1"
  then show "findLegalDimension minimum = Some (Inr 1)" by (simp add: findLegalDimension_def)
next
  assume "1 \<le> minimum"
  then show "\<exists>u. factorLoop 2 minimum = Some u \<and> (u = 1 \<longleftrightarrow> legalSize minimum)"
    using factorLoop_spec by blast
next
  assume "1 \<le> minimum \<and> minimum \<le> B \<and> B \<le> INT_MAX \<and> legalSize B"
  then show "\<exists>r. findLegalDimension minimum = Some (Inr r) \<and> minimum \<le> r \<and> r \<le> B \<and> legalSize r \<and>
           (\<forall>k. minimum \<le> k \<and> k < r \<longrightarrow> \<not> legalSize k)"
    using searchLegal_finds [of B minimum] by (simp add: findLegalDimension_def)
next
  assume "1 \<le> minimum \<and> minimum \<le> 2144153025"
  then show "\<exists>r. findLegalDimension minimum = Some (Inr r) \<and> minimum \<le> r \<and> r \<le> 2144153025 \<and>
           legalSize r \<and> (\<forall>k. minimum \<le> k \<and> k < r \<longrightarrow> \<not> legalSize k)"
    using searchLegal_finds [of 2144153025 minimum] legalSize_largest
    by (simp add: findLegalDimension_def INT_MAX_def)
next
  show "legalSize 2144153025" by (rule legalSize_largest)
  show "2144153025 \<le> INT_MAX" by (simp add: INT_MAX_def)
qed

theorem findLegalDimension_smallest_legal_witness:
  "findLegalDimension 0 = Some (Inr 1) \<and>
   (1::int) \<le> 11 \<and> (11::int) \<le> 2144153025 \<and> 2144153025 \<le> INT_MAX \<and> legalSize 2144153025 \<and>
   (\<exists>r. findLegalDimension 11 = Some (Inr r) \<and> 11 \<le> r \<and> r \<le> 2144153025 \<and> legalSize r \<and>
        (\<forall>k. 11 \<le> k \<and> k < r \<longrightarrow> \<not> legalSize k)) \<and>
   findLegalDimension 11 = Some (Inr 12)"
  using findLegalDimension_smallest_legal [of 0 0]
    findLegalDimension_smallest_legal [of 11 2144153025] findLegalDimension_11
  by simp

subsection \<open>When createKernel throws\<close>

lemma firstRadix_None_iff:
  "firstRadix L = None \<longleftrightarrow> \<not> 7 dvd L \<and> \<not> 5 dvd L \<and> \<not> 4 dvd L \<and> \<not> 3 dvd L \<and> \<not> 2 dvd L"
  by (simp add: firstRadix_cases)

lemma selectRadix_throws_iff:
  "selectRadix ctx zs L = Inl e \<longleftrightarrow>
     e = OpenMMException (''Illegal size for FFT: '' @ intToString ctx zs) \<and>
     \<not> 7 dvd L \<and> \<not> 5 dvd L \<and> \<not> 4 dvd L \<and> \<not> 3 dvd L \<and> \<not> 2 dvd L"
  by (auto simp: selectRadix_firstRadix firstRadix_cases)

lemma createKernel_zero: "createKernel ctx xs ys 0 axis fwd iir = None"
  by (simp add: createKernel_def getSmallestRadix_zero)

lemma createKernel_throws_iff:
  "createKernel ctx xs ys zs axis fwd iir = Some (Inl e) \<longleftrightarrow>
     e = OpenMMException (''Illegal size for FFT: '' @ intToString ctx zs) \<and> 1 < zs \<and> \<not> legalSize zs"
proof (cases "zs = 0")
  case True
  then show ?thesis by (simp add: createKernel_zero)
next
  case False
  then obtain r where r: "getSmallestRadix zs = Some r"
    using getSmallestRadix_returns by blast
  define tpb where "tpb = c_div zs r"
  define bpg where "bpg = max 1 (c_div (if getUseDoublePrecision ctx then 128 else 256) (c_div zs r))"
  note iff = stageLoop_throws_iff [of ctx zs tpb bpg 0 zs 1 "[]"]
  show ?thesis
  proof (cases "stageLoop ctx zs tpb bpg 0 zs 1 []")
    case (Inl e')
    then have "createKernel ctx xs ys zs axis fwd iir = Some (Inl e')"
      unfolding createKernel_unfold [OF r] tpb_def bpg_def by simp
    with Inl iff [of e'] iff [of e] show ?thesis by auto
  next
    case (Inr res)
    then have "createKernel ctx xs ys zs axis fwd iir \<noteq> Some (Inl e)"
      unfolding createKernel_unfold [OF r] tpb_def bpg_def by (cases res) simp
    with Inr iff [of e] show ?thesis by simp
  qed
qed

lemma createKernel_returns:
  assumes "zs \<noteq> 0" "\<not> (1 < zs \<and> \<not> legalSize zs)"
  shows "\<exists>kernel threads. createKernel ctx xs ys zs axis fwd iir = Some (Inr (kernel, threads))"
proof -
  from assms(1) obtain r where r: "getSmallestRadix zs = Some r"
    using getSmallestRadix_returns by blast
  have n: "createKernel ctx xs ys zs axis fwd iir \<noteq> None"
    unfolding createKernel_unfold [OF r] by (simp split: sum.split prod.split)
  have t: "createKernel ctx xs ys zs axis fwd iir \<noteq> Some (Inl e)" for e
    using assms(2) by (simp add: createKernel_throws_iff)
  show ?thesis
  proof (cases "createKernel ctx xs ys zs axis fwd iir")
    case None
    with n show ?thesis by simp
  next
    case (Some a)
    show ?thesis
    proof (cases a)
      case (Inl e)
      with Some t show ?thesis by simp
    next
      case (Inr v)
      with Some show ?thesis by (cases v) simp
    qed
  qed
qed

subsection \<open>The constructor and its six calls\<close>

lemma andThen_simps:
  "andThen None f = None"
  "andThen (Some (Inl e)) f = Some (Inl e)"
  "andThen (Some (Inr v)) f = f v"
  by (simp_all add: andThen_def)

text \<open>The outcome of the constructor in terms of the outcomes of its six calls.\<close>

lemma newCudaFFT3D_throws_iff:
  assumes sel: "selectPacking x y z r2c = (p, a, px, py, pz)"
  shows "newCudaFFT3D ctx x y z r2c = Some (Inl e) \<longleftrightarrow>
     (1 < pz \<and> \<not> legalSize pz \<and>
        e = OpenMMException (''Illegal size for FFT: '' @ intToString ctx pz)) \<or>
     (pz \<noteq> 0 \<and> (1 < pz \<longrightarrow> legalSize pz) \<and> 1 < px \<and> \<not> legalSize px \<and>
        e = OpenMMException (''Illegal size for FFT: '' @ intToString ctx px)) \<or>
     (pz \<noteq> 0 \<and> (1 < pz \<longrightarrow> legalSize pz) \<and> px \<noteq> 0 \<and> (1 < px \<longrightarrow> legalSize px) \<and>
        1 < py \<and> \<not> legalSize py \<and>
        e = OpenMMException (''Illegal size for FFT: '' @ intToString ctx py))"
    (is "?lhs \<longleftrightarrow> ?Z \<or> ?X \<or> ?Y")
proof -
  define iir where "iir = (r2c \<and> \<not> p)"
  note defs = newCudaFFT3D_def sel Let_def andThen_simps iir_def [symmetric]
  have throws: "createKernel ctx xs ys zs axis fwd iir =
      Some (Inl (OpenMMException (''Illegal size for FFT: '' @ intToString ctx zs)))"
    if "1 < zs" "\<not> legalSize zs" for xs ys zs axis fwd
    using that by (simp add: createKernel_throws_iff)
  have diverges: "createKernel ctx xs ys zs axis fwd iir = None" if "zs = 0" for xs ys zs axis fwd
    using that by (simp add: createKernel_zero)
  consider (z0) "pz = 0" | (zbad) "1 < pz" "\<not> legalSize pz"
    | (zok) "pz \<noteq> 0" "1 < pz \<longrightarrow> legalSize pz" by blast
  then show ?thesis
  proof cases
    case z0
    have "newCudaFFT3D ctx x y z r2c = None"
      by (simp add: defs diverges [OF z0])
    then show ?thesis using z0 by simp
  next
    case zbad
    have "newCudaFFT3D ctx x y z r2c =
        Some (Inl (OpenMMException (''Illegal size for FFT: '' @ intToString ctx pz)))"
      by (simp add: defs throws [OF zbad])
    then show ?thesis using zbad by auto
  next
    case zok
    obtain zk zt where zk: "createKernel ctx px py pz 0 True iir = Some (Inr (zk, zt))"
      using createKernel_returns zok by blast
    obtain izk izt where izk: "createKernel ctx px py pz 0 False iir = Some (Inr (izk, izt))"
      using createKernel_returns zok by blast
    consider (x0) "px = 0" | (xbad) "1 < px" "\<not> legalSize px"
      | (xok) "px \<noteq> 0" "1 < px \<longrightarrow> legalSize px" by blast
    then show ?thesis
    proof cases
      case x0
      have "newCudaFFT3D ctx x y z r2c = None"
        by (simp add: defs zk diverges [OF x0])
      then show ?thesis using zok x0 by auto
    next
      case xbad
      have "newCudaFFT3D ctx x y z r2c =
          Some (Inl (OpenMMException (''Illegal size for FFT: '' @ intToString ctx px)))"
        by (simp add: defs zk throws [OF xbad])
      then show ?thesis using zok xbad by auto
    next
      case xok
      obtain xk xt where xk: "createKernel ctx py pz px 1 True iir = Some (Inr (xk, xt))"
        using createKernel_returns xok by blast
      obtain ixk ixt where ixk: "createKernel ctx py pz px 1 False iir = Some (Inr (ixk, ixt))"
        using createKernel_returns xok by blast
      consider (y0) "py = 0" | (ybad) "1 < py" "\<not> legalSize py"
        | (yok) "py \<noteq> 0" "1 < py \<longrightarrow> legalSize py" by blast
      then show ?thesis
      proof cases
        case y0
        have "newCudaFFT3D ctx x y z r2c = None"
          by (simp add: defs zk xk diverges [OF y0])
        then show ?thesis using zok xok y0 by auto
      next
        case ybad
        have "newCudaFFT3D ctx x y z r2c =
            Some (Inl (OpenMMException (''Illegal size for FFT: '' @ intToString ctx py)))"
          by (simp add: defs zk xk throws [OF ybad])
        then show ?thesis using zok xok ybad by auto
      next
        case yok
        obtain yk yt where yk: "createKernel ctx pz px py 2 True iir = Some (Inr (yk, yt))"
          using createKernel_returns yok by blast
        obtain iyk iyt where iyk: "createKernel ctx pz px py 2 False iir = Some (Inr (iyk, iyt))"
          using createKernel_returns yok by blast
        have "\<exists>plan. newCudaFFT3D ctx x y z r2c = Some (Inr plan)"
          by (simp add: defs zk xk yk izk ixk iyk)
        then show ?thesis using zok xok yok by auto
      qed
    qed
  qed
qed

lemma not_legalSize_11: "\<not> legalSize 11"
proof
  assume "legalSize 11"
  from legalSize_cases [OF this] show False by presburger
qed

lemma not_legalSize_22: "\<not> legalSize 22"
proof
  assume "legalSize 22"
  then have "legalSize 11" by (rule legalSize_dvd) simp_all
  with not_legalSize_11 show False ..
qed

lemma showInt_11: "showInt 11 = ''11''"
  by (simp add: showInt_def showNat.simps digit_def)

lemma showInt_22: "showInt 22 = ''22''"
  by (simp add: showInt_def showNat.simps digit_def)

lemma selectPacking_5_11_9: "selectPacking 5 11 9 True = (False, None, 5, 11, 9)"
  by (simp add: selectPacking_def c_mod_def c_div_def)

lemma legalSize_9: "legalSize 9"
  using legalSize_mult [OF legalSize_3 legalSize_3] by simp

text \<open>
  C8: during the stage decomposition the kernel synthesis throws the \<^verbatim>\<open>OpenMMException\<close>
  "Illegal size for FFT: ..." exactly when a remaining length \<^verbatim>\<open>L > 1\<close> is divisible by none
  of 7, 5, 4, 3, 2: the chain of tests takes its throwing branch exactly then, the loop
  throws exactly when it reaches such a length, which it does exactly when it starts from
  a length above 1 that is not legal, and never for a legal one. The exception leaves
  \<^verbatim>\<open>createKernel\<close> and the constructor: the constructor throws exactly the exception of the
  first of its calls (Z, X, Y axis) that throws, the earlier ones having returned.
\<close>

theorem illegal_size_throws:
  "(selectRadix ctx zs L = Inl e \<longleftrightarrow>
      e = OpenMMException (''Illegal size for FFT: '' @ intToString ctx zs) \<and>
      \<not> 7 dvd L \<and> \<not> 5 dvd L \<and> \<not> 4 dvd L \<and> \<not> 3 dvd L \<and> \<not> 2 dvd L) \<and>
   (stageLoop ctx zs tpb bpg stage L m src = Inl e \<longleftrightarrow>
      e = OpenMMException (''Illegal size for FFT: '' @ intToString ctx zs) \<and>
      (\<exists>L'. remains L L' \<and> 1 < L' \<and>
         \<not> 7 dvd L' \<and> \<not> 5 dvd L' \<and> \<not> 4 dvd L' \<and> \<not> 3 dvd L' \<and> \<not> 2 dvd L')) \<and>
   (stageLoop ctx zs tpb bpg stage L m src = Inl e \<longleftrightarrow>
      e = OpenMMException (''Illegal size for FFT: '' @ intToString ctx zs) \<and>
      1 < L \<and> \<not> legalSize L) \<and>
   (createKernel ctx xs ys zs axis fwd iir = Some (Inl e) \<longleftrightarrow>
      e = OpenMMException (''Illegal size for FFT: '' @ intToString ctx zs) \<and>
      1 < zs \<and> \<not> legalSize zs) \<and>
   (selectPacking x y z r2c = (p, a, px, py, pz) \<longrightarrow>
      (newCudaFFT3D ctx x y z r2c = Some (Inl e') \<longleftrightarrow>
         (1 < pz \<and> \<not> legalSize pz \<and>
            e' = OpenMMException (''Illegal size for FFT: '' @ intToString ctx pz)) \<or>
         (pz \<noteq> 0 \<and> (1 < pz \<longrightarrow> legalSize pz) \<and> 1 < px \<and> \<not> legalSize px \<and>
            e' = OpenMMException (''Illegal size for FFT: '' @ intToString ctx px)) \<or>
         (pz \<noteq> 0 \<and> (1 < pz \<longrightarrow> legalSize pz) \<and> px \<noteq> 0 \<and> (1 < px \<longrightarrow> legalSize px) \<and>
            1 < py \<and> \<not> legalSize py \<and>
            e' = OpenMMException (''Illegal size for FFT: '' @ intToString ctx py))))"
proof (intro conjI impI)
  show "selectRadix ctx zs L = Inl e \<longleftrightarrow>
      e = OpenMMException (''Illegal size for FFT: '' @ intToString ctx zs) \<and>
      \<not> 7 dvd L \<and> \<not> 5 dvd L \<and> \<not> 4 dvd L \<and> \<not> 3 dvd L \<and> \<not> 2 dvd L"
    by (rule selectRadix_throws_iff)
next
  show "stageLoop ctx zs tpb bpg stage L m src = Inl e \<longleftrightarrow>
      e = OpenMMException (''Illegal size for FFT: '' @ intToString ctx zs) \<and>
      (\<exists>L'. remains L L' \<and> 1 < L' \<and>
         \<not> 7 dvd L' \<and> \<not> 5 dvd L' \<and> \<not> 4 dvd L' \<and> \<not> 3 dvd L' \<and> \<not> 2 dvd L')"
    using throws_remains [of ctx zs tpb bpg stage L m src e]
      remains_throws [of L _ ctx zs tpb bpg stage m src]
    unfolding firstRadix_None_iff by blast
next
  show "stageLoop ctx zs tpb bpg stage L m src = Inl e \<longleftrightarrow>
      e = OpenMMException (''Illegal size for FFT: '' @ intToString ctx zs) \<and>
      1 < L \<and> \<not> legalSize L"
    by (rule stageLoop_throws_iff)
next
  show "createKernel ctx xs ys zs axis fwd iir = Some (Inl e) \<longleftrightarrow>
      e = OpenMMException (''Illegal size for FFT: '' @ intToString ctx zs) \<and>
      1 < zs \<and> \<not> legalSize zs"
    by (rule createKernel_throws_iff)
next
  assume "selectPacking x y z r2c = (p, a, px, py, pz)"
  then show "newCudaFFT3D ctx x y z r2c = Some (Inl e') \<longleftrightarrow>
         (1 < pz \<and> \<not> legalSize pz \<and>
            e' = OpenMMException (''Illegal size for FFT: '' @ intToString ctx pz)) \<or>
         (pz \<noteq> 0 \<and> (1 < pz \<longrightarrow> legalSize pz) \<and> 1 < px \<and> \<not> legalSize px \<and>
            e' = OpenMMException (''Illegal size for FFT: '' @ intToString ctx px)) \<or>
         (pz \<noteq> 0 \<and> (1 < pz \<longrightarrow> legalSize pz) \<and> px \<noteq> 0 \<and> (1 < px \<longrightarrow> legalSize px) \<and>
            1 < py \<and> \<not> legalSize py \<and>
            e' = OpenMMException (''Illegal size for FFT: '' @ intToString ctx py))"
    by (rule newCudaFFT3D_throws_iff)
qed

theorem illegal_size_throws_witness:
  "selectRadix singlePrecision 22 11 = Inl (OpenMMException ''Illegal size for FFT: 22'') \<and>
   stageLoop singlePrecision 22 11 23 0 22 1 [] = Inl (OpenMMException ''Illegal size for FFT: 22'') \<and>
   createKernel singlePrecision 4 4 22 0 True False =
     Some (Inl (OpenMMException ''Illegal size for FFT: 22'')) \<and>
   selectPacking 5 11 9 True = (False, None, 5, 11, 9) \<and>
   newCudaFFT3D singlePrecision 5 11 9 True =
     Some (Inl (OpenMMException ''Illegal size for FFT: 11'')) \<and>
   legalSize 28 \<and>
   stageLoop singlePrecision 28 7 36 0 28 1 [] \<noteq> Inl (OpenMMException ''Illegal size for FFT: 28'')"
proof -
  have s: "intToString singlePrecision 22 = ''22''" "intToString singlePrecision 11 = ''11''"
    by (simp_all add: singlePrecision_def showInt_22 showInt_11)
  have 1: "selectRadix singlePrecision 22 11 = Inl (OpenMMException ''Illegal size for FFT: 22'')"
    using illegal_size_throws
      [where ctx = singlePrecision and zs = 22 and L = 11
         and e = "OpenMMException ''Illegal size for FFT: 22''", THEN conjunct1]
    by (simp add: s)
  have 2: "stageLoop singlePrecision 22 11 23 0 22 1 [] =
      Inl (OpenMMException ''Illegal size for FFT: 22'')"
    using illegal_size_throws
      [where ctx = singlePrecision and zs = 22 and L = 22 and tpb = 11 and bpg = 23
         and stage = 0 and m = 1 and src = Nil
         and e = "OpenMMException ''Illegal size for FFT: 22''",
       THEN conjunct2, THEN conjunct2, THEN conjunct1]
      not_legalSize_22
    by (simp add: s)
  have 3: "createKernel singlePrecision 4 4 22 0 True False =
      Some (Inl (OpenMMException ''Illegal size for FFT: 22''))"
    using illegal_size_throws
      [where ctx = singlePrecision and zs = 22 and xs = 4 and ys = 4 and axis = 0
         and fwd = True and iir = False
         and e = "OpenMMException ''Illegal size for FFT: 22''",
       THEN conjunct2, THEN conjunct2, THEN conjunct2, THEN conjunct1]
      not_legalSize_22
    by (simp add: s)
  have 4: "newCudaFFT3D singlePrecision 5 11 9 True =
      Some (Inl (OpenMMException ''Illegal size for FFT: 11''))"
    using illegal_size_throws
      [where ctx = singlePrecision and e' = "OpenMMException ''Illegal size for FFT: 11''",
       THEN conjunct2, THEN conjunct2, THEN conjunct2, THEN conjunct2,
       rule_format, OF selectPacking_5_11_9]
      not_legalSize_11 legalSize_9 legalSize_5
    by (simp add: s)
  have 5: "stageLoop singlePrecision 28 7 36 0 28 1 [] \<noteq>
      Inl (OpenMMException ''Illegal size for FFT: 28'')"
    using illegal_size_throws
      [where ctx = singlePrecision and zs = 28 and L = 28 and tpb = 7 and bpg = 36
         and stage = 0 and m = 1 and src = Nil
         and e = "OpenMMException ''Illegal size for FFT: 28''",
       THEN conjunct2, THEN conjunct2, THEN conjunct1]
      legalSize_28
    by simp
  from 1 2 3 4 5 selectPacking_5_11_9 legalSize_28 show ?thesis by simp
qed

subsection \<open>The two loop structures pick the same radices\<close>

lemma followsPriority_unique:
  "followsPriority L rs \<Longrightarrow> followsPriority L rs' \<Longrightarrow> rs = rs'"
proof (induction rs arbitrary: L rs')
  case Nil
  then show ?case by (cases rs') simp_all
next
  case (Cons r rs)
  then show ?case by (cases rs') auto
qed

lemma followsPriority_power:
  assumes "1 < r" "0 < u"
    and "\<And>j. 0 < j \<Longrightarrow> j \<le> k \<Longrightarrow> firstRadix (u * r ^ j) = Some r"
    and "followsPriority u rs"
  shows "followsPriority (u * r ^ k) (replicate k r @ rs)"
  using assms(3)
proof (induction k)
  case 0
  then show ?case using assms(4) by simp
next
  case (Suc k)
  have "1 \<le> u * r ^ k" using assms(1,2)
    by (metis int_one_le_iff_zero_less less_trans mult_pos_pos zero_less_one zero_less_power)
  then have "1 * r \<le> (u * r ^ k) * r" using assms(1) by (intro mult_right_mono) simp_all
  then have "r \<le> u * r ^ Suc k" by (simp add: ac_simps)
  then have big: "1 < u * r ^ Suc k" using assms(1) by linarith
  have "(u * r ^ Suc k) div r = u * r ^ k" using assms(1) by simp
  moreover have "firstRadix (u * r ^ Suc k) = Some r" by (rule Suc.prems) simp_all
  moreover have "followsPriority (u * r ^ k) (replicate k r @ rs)"
    by (rule Suc.IH) (simp add: Suc.prems)
  ultimately show ?case using big by simp
qed

lemma power_part_dvd: "j \<le> k \<Longrightarrow> (u::int) * r ^ j dvd u * r ^ k"
  by (simp add: le_imp_power_dvd mult_dvd_mono)

lemma power_dvd_self: "0 < j \<Longrightarrow> (r::int) dvd u * r ^ j"
  by (cases j) simp_all

lemma pos_factor:
  fixes u :: int
  assumes "0 < u * r ^ k" "0 < r" shows "0 < u"
  using assms by (simp add: zero_less_mult_iff)

lemma getSmallestRadix_follows:
  assumes leg: "legalSize Z"
  obtains trace where
    "getSmallestRadixTrace Z = Some trace"
    "getSmallestRadix Z = Some (if trace = [] then 1 else Min (set trace))"
    "followsPriority Z trace"
proof -
  have Zpos: "0 < Z" using leg by (rule legalSize_pos)
  then have "Z \<noteq> 0" by simp
  then obtain k7 k5 k4 k3 k2 u1 u2 u3 u4 u5 where
    gsr: "getSmallestRadix Z =
       Some (if k2 \<noteq> 0 then 2 else if k3 \<noteq> 0 then 3 else if k4 \<noteq> 0 then 4
             else if k5 \<noteq> 0 then 5 else if k7 \<noteq> 0 then 7 else 1)"
    and tr: "getSmallestRadixTrace Z =
       Some (replicate k7 7 @ replicate k5 5 @ replicate k4 4 @ replicate k3 3 @ replicate k2 2)"
    and 7: "Z = u1 * 7 ^ k7" "\<not> 7 dvd u1"
    and 5: "u1 = u2 * 5 ^ k5" "\<not> 5 dvd u2"
    and 4: "u2 = u3 * 4 ^ k4" "\<not> 4 dvd u3"
    and 3: "u3 = u4 * 3 ^ k3" "\<not> 3 dvd u4"
    and 2: "u4 = u5 * 2 ^ k2" "\<not> 2 dvd u5"
    by (rule getSmallestRadix_spec)
  have p1: "0 < u1" using Zpos 7(1) pos_factor [of u1 7 k7] by simp
  have p2: "0 < u2" using p1 5(1) pos_factor [of u2 5 k5] by simp
  have p3: "0 < u3" using p2 4(1) pos_factor [of u3 4 k4] by simp
  have p4: "0 < u4" using p3 3(1) pos_factor [of u4 3 k3] by simp
  have p5: "0 < u5" using p4 2(1) pos_factor [of u5 2 k2] by simp
  have d54: "u5 dvd u4" using 2(1) by simp
  have d43: "u4 dvd u3" using 3(1) by simp
  have d32: "u3 dvd u2" using 4(1) by simp
  have d21: "u2 dvd u1" using 5(1) by simp
  have d10: "u1 dvd Z" using 7(1) by simp
  have n7_1: "\<not> 7 dvd u1" by (rule 7(2))
  have n7_2: "\<not> 7 dvd u2" using n7_1 d21 dvd_trans by blast
  have n7_3: "\<not> 7 dvd u3" using n7_2 d32 dvd_trans by blast
  have n7_4: "\<not> 7 dvd u4" using n7_3 d43 dvd_trans by blast
  have n5_2: "\<not> 5 dvd u2" by (rule 5(2))
  have n5_3: "\<not> 5 dvd u3" using n5_2 d32 dvd_trans by blast
  have n5_4: "\<not> 5 dvd u4" using n5_3 d43 dvd_trans by blast
  have n4_3: "\<not> 4 dvd u3" by (rule 4(2))
  have n4_4: "\<not> 4 dvd u4" using n4_3 d43 dvd_trans by blast
  have n3_4: "\<not> 3 dvd u4" by (rule 3(2))
  have "legalSize u5"
    using leg p5 d54 d43 d32 d21 d10 by (meson legalSize_dvd dvd_trans)
  moreover have "\<not> 2 dvd u5" by (rule 2(2))
  moreover have "\<not> 3 dvd u5" using n3_4 d54 dvd_trans by blast
  moreover have "\<not> 5 dvd u5" using n5_4 d54 dvd_trans by blast
  moreover have "\<not> 7 dvd u5" using n7_4 d54 dvd_trans by blast
  ultimately have u5: "u5 = 1" using legalSize_cases by blast
  have part: "\<not> q dvd u * r ^ j" if "\<not> q dvd u * r ^ k" "j \<le> k" for q u r :: int and j k :: nat
    using that power_part_dvd [of j k u r] dvd_trans by blast
  have f2: "firstRadix (u5 * 2 ^ j) = Some 2" if "0 < j" "j \<le> k2" for j
    using that power_dvd_self [of j 2 u5]
      part [of 7 u5 2 k2 j] part [of 5 u5 2 k2 j] part [of 4 u5 2 k2 j] part [of 3 u5 2 k2 j]
      n7_4 n5_4 n4_4 n3_4 2(1)
    by (simp add: firstRadix_cases)
  have f3: "firstRadix (u4 * 3 ^ j) = Some 3" if "0 < j" "j \<le> k3" for j
    using that power_dvd_self [of j 3 u4]
      part [of 7 u4 3 k3 j] part [of 5 u4 3 k3 j] part [of 4 u4 3 k3 j]
      n7_3 n5_3 n4_3 3(1)
    by (simp add: firstRadix_cases)
  have f4: "firstRadix (u3 * 4 ^ j) = Some 4" if "0 < j" "j \<le> k4" for j
    using that power_dvd_self [of j 4 u3]
      part [of 7 u3 4 k4 j] part [of 5 u3 4 k4 j]
      n7_2 n5_2 4(1)
    by (simp add: firstRadix_cases)
  have f5: "firstRadix (u2 * 5 ^ j) = Some 5" if "0 < j" "j \<le> k5" for j
    using that power_dvd_self [of j 5 u2] part [of 7 u2 5 k5 j] n7_1 5(1)
    by (simp add: firstRadix_cases)
  have f7: "firstRadix (u1 * 7 ^ j) = Some 7" if "0 < j" "j \<le> k7" for j
    using that power_dvd_self [of j 7 u1] by (simp add: firstRadix_cases)
  have "followsPriority u5 []" using u5 by simp
  then have "followsPriority (u5 * 2 ^ k2) (replicate k2 2 @ [])"
    using p5 f2 by (intro followsPriority_power) simp_all
  then have "followsPriority u4 (replicate k2 2)" using 2(1) by simp
  then have "followsPriority (u4 * 3 ^ k3) (replicate k3 3 @ replicate k2 2)"
    using p4 f3 by (intro followsPriority_power) simp_all
  then have "followsPriority u3 (replicate k3 3 @ replicate k2 2)" using 3(1) by simp
  then have "followsPriority (u3 * 4 ^ k4) (replicate k4 4 @ replicate k3 3 @ replicate k2 2)"
    using p3 f4 by (intro followsPriority_power) simp_all
  then have "followsPriority u2 (replicate k4 4 @ replicate k3 3 @ replicate k2 2)"
    using 4(1) by simp
  then have "followsPriority (u2 * 5 ^ k5)
      (replicate k5 5 @ replicate k4 4 @ replicate k3 3 @ replicate k2 2)"
    using p2 f5 by (intro followsPriority_power) simp_all
  then have "followsPriority u1 (replicate k5 5 @ replicate k4 4 @ replicate k3 3 @ replicate k2 2)"
    using 5(1) by simp
  then have "followsPriority (u1 * 7 ^ k7)
      (replicate k7 7 @ replicate k5 5 @ replicate k4 4 @ replicate k3 3 @ replicate k2 2)"
    using p1 f7 by (intro followsPriority_power) simp_all
  then have fp: "followsPriority Z
      (replicate k7 7 @ replicate k5 5 @ replicate k4 4 @ replicate k3 3 @ replicate k2 2)"
    using 7(1) by simp
  have min: "getSmallestRadix Z =
      Some (if replicate k7 (7::int) @ replicate k5 5 @ replicate k4 4 @ replicate k3 3 @ replicate k2 2 = []
            then 1
            else Min (set (replicate k7 (7::int) @ replicate k5 5 @ replicate k4 4 @ replicate k3 3 @
                           replicate k2 2)))"
    using gsr Min_radices [of k7 k5 k4 k3 k2] by simp
  from tr min fp show ?thesis by (rule that)
qed

text \<open>
  C10: for every legal axis length \<open>Z \<ge> 2\<close>, \<^verbatim>\<open>getSmallestRadix(Z)\<close> is the least of the
  radices that the stage loop of \<^verbatim>\<open>createKernel\<close> selects for \<open>Z\<close>, and the radices
  that the five loops of \<^verbatim>\<open>getSmallestRadix\<close> divide out are those of the stages, in the
  same order (so also as multisets).
\<close>

theorem smallest_radix_agrees_with_stages:
  assumes "legalSize Z" "2 \<le> Z"
  shows "\<exists>stage m source.
           stageLoop ctx Z threadsPerBlock blocksPerGroup 0 Z 1 [] = Inr (stage, 1, m, source) \<and>
           source \<noteq> [] \<and>
           getSmallestRadix Z = Some (Min (set (map pass_radix source))) \<and>
           getSmallestRadixTrace Z = Some (map pass_radix source)"
proof -
  obtain ps where ps: "stageLoop ctx Z threadsPerBlock blocksPerGroup 0 Z 1 [] =
             Inr (0 + int (length ps), 1, 1 * Z, [] @ ps)"
      "followsPriority Z (map pass_radix ps)"
    using stageLoop_legal [OF assms(1)] by blast
  obtain trace where trace: "getSmallestRadixTrace Z = Some trace"
      "getSmallestRadix Z = Some (if trace = [] then 1 else Min (set trace))"
      "followsPriority Z trace"
    using assms(1) by (rule getSmallestRadix_follows)
  have eq: "trace = map pass_radix ps"
    using trace(3) ps(2) by (rule followsPriority_unique)
  have "trace \<noteq> []" using trace(3) assms(2) by (cases trace) simp_all
  with eq trace(1,2) ps(1) show ?thesis by auto
qed

theorem smallest_radix_agrees_with_stages_witness:
  "legalSize 28 \<and> (2::int) \<le> 28 \<and>
   (\<exists>stage m source.
      stageLoop singlePrecision 28 7 36 0 28 1 [] = Inr (stage, 1, m, source) \<and>
      map pass_radix source = [7, 4] \<and>
      getSmallestRadix 28 = Some (Min (set (map pass_radix source))) \<and>
      getSmallestRadixTrace 28 = Some (map pass_radix source))"
proof -
  have "getSmallestRadixTrace 28 = Some [7, 4]"
    by (simp add: getSmallestRadixTrace_def whileDividesTrace.simps c_mod_def c_div_def)
  then show ?thesis
    using smallest_radix_agrees_with_stages [OF legalSize_28, of singlePrecision 7 36] legalSize_28
    by auto
qed

text \<open>
  C9: for every axis length \<open>Z\<close> for which \<^verbatim>\<open>createKernel\<close> returns (every \<open>Z\<close> other than 0
  that is legal or below 2; for 0 \<^verbatim>\<open>getSmallestRadix\<close> does not return, and an illegal
  size throws before the thread count is stored), \<^verbatim>\<open>threadsPerBlock\<close> is
  \<^verbatim>\<open>Z / getSmallestRadix(Z)\<close>, an exact division that is never 0, \<^verbatim>\<open>blocksPerGroup\<close> is
  \<^verbatim>\<open>max(1, maxThreads / threadsPerBlock)\<close> with \<^verbatim>\<open>maxThreads\<close> 128 in double and 256 in
  single precision, and the thread count handed back is \<^verbatim>\<open>blocksPerGroup * threadsPerBlock\<close>.
\<close>

theorem createKernel_thread_counts:
  assumes "Z \<noteq> 0" "1 < Z \<longrightarrow> legalSize Z"
  shows "\<exists>kernel threads smallest.
           createKernel ctx xs ys Z axis forward inputIsReal = Some (Inr (kernel, threads)) \<and>
           getSmallestRadix Z = Some smallest \<and>
           (let maxThreads = (if getUseDoublePrecision ctx then 128 else 256);
                threadsPerBlock = c_div Z smallest;
                blocksPerGroup = max 1 (c_div maxThreads threadsPerBlock)
            in threadsPerBlock * smallest = Z \<and> threadsPerBlock \<noteq> 0 \<and>
               replacement kernel ''THREADS_PER_BLOCK'' = Some (intToString ctx threadsPerBlock) \<and>
               replacement kernel ''BLOCKS_PER_GROUP'' = Some (intToString ctx blocksPerGroup) \<and>
               threads = blocksPerGroup * threadsPerBlock)"
proof -
  obtain r where r: "getSmallestRadix Z = Some r" "r dvd Z"
    using getSmallestRadix_returns [OF assms(1)] by blast
  define tpb where "tpb = c_div Z r"
  define bpg where "bpg = max 1 (c_div (if getUseDoublePrecision ctx then 128 else 256) tpb)"
  have exact: "tpb * r = Z" using r(2) by (simp add: tpb_def c_div_exact)
  with assms(1) have nz: "tpb \<noteq> 0" by auto
  have "stageLoop ctx Z tpb bpg 0 Z 1 [] \<noteq> Inl e" for e
    using assms(2) by (simp add: stageLoop_throws_iff)
  then obtain stage L m source where sl: "stageLoop ctx Z tpb bpg 0 Z 1 [] = Inr (stage, L, m, source)"
    by (cases "stageLoop ctx Z tpb bpg 0 Z 1 []") auto
  define kernel where "kernel = Function
               (FFTModule source
                  (finalWrite (inputIsReal \<and> axis = 2 \<and> forward)
                     (if inputIsReal \<and> axis = 2 \<and> \<not> forward then ''.x'' else '''') stage)
                  [(''XSIZE'', intToString ctx xs),
                   (''YSIZE'', intToString ctx ys),
                   (''ZSIZE'', intToString ctx Z),
                   (''BLOCKS_PER_GROUP'', intToString ctx bpg),
                   (''THREADS_PER_BLOCK'', intToString ctx tpb),
                   (''SIGN'', if forward then ''1'' else ''-1''),
                   (''INPUT_TYPE'', if inputIsReal \<and> axis = 0 \<and> forward then ''real'' else ''real2''),
                   (''OUTPUT_TYPE'', if inputIsReal \<and> axis = 2 \<and> \<not> forward then ''real'' else ''real2''),
                   (''INPUT_IS_REAL'', if inputIsReal \<and> axis = 0 \<and> forward then ''1'' else ''0''),
                   (''INPUT_IS_PACKED'', if inputIsReal \<and> axis = 0 \<and> \<not> forward then ''1'' else ''0''),
                   (''OUTPUT_IS_PACKED'', if inputIsReal \<and> axis = 2 \<and> forward then ''1'' else ''0'')])
               ''execFFT''"
  have ck: "createKernel ctx xs ys Z axis forward inputIsReal = Some (Inr (kernel, bpg * tpb))"
    unfolding createKernel_unfold [OF r(1)] using sl
    by (simp add: tpb_def bpg_def kernel_def)
  have "replacement kernel ''THREADS_PER_BLOCK'' = Some (intToString ctx tpb)"
    "replacement kernel ''BLOCKS_PER_GROUP'' = Some (intToString ctx bpg)"
    by (simp_all add: kernel_def)
  with ck r(1) exact nz show ?thesis
    by (simp add: Let_def tpb_def bpg_def split del: if_split)
qed

lemma getSmallestRadix_28: "getSmallestRadix 28 = Some 4"
  by (simp add: getSmallestRadix_def whileDivides.simps c_mod_def c_div_def)

lemma showInt_small:
  "showInt 7 = ''7''" "showInt 36 = ''36''" "showInt 18 = ''18''"
  by (simp_all add: showInt_def showNat.simps digit_def)

theorem createKernel_thread_counts_witness:
  "(28::int) \<noteq> 0 \<and> legalSize 28 \<and>
   (\<exists>kernel. createKernel singlePrecision 4 4 28 0 True False = Some (Inr (kernel, 252)) \<and>
      replacement kernel ''THREADS_PER_BLOCK'' = Some ''7'' \<and>
      replacement kernel ''BLOCKS_PER_GROUP'' = Some ''36'') \<and>
   (\<exists>kernel. createKernel doublePrecision 4 4 28 0 True False = Some (Inr (kernel, 126)) \<and>
      replacement kernel ''THREADS_PER_BLOCK'' = Some ''7'' \<and>
      replacement kernel ''BLOCKS_PER_GROUP'' = Some ''18'')"
proof -
  have q: "c_div 28 4 = 7" "c_div 256 7 = 36" "c_div 128 7 = 18"
    by (simp_all add: c_div_def)
  have "\<exists>kernel. createKernel singlePrecision 4 4 28 0 True False = Some (Inr (kernel, 252)) \<and>
      replacement kernel ''THREADS_PER_BLOCK'' = Some ''7'' \<and>
      replacement kernel ''BLOCKS_PER_GROUP'' = Some ''36''"
    using createKernel_thread_counts [of 28 singlePrecision 4 4 0 True False] legalSize_28
    by (auto simp: getSmallestRadix_28 Let_def q singlePrecision_def showInt_small)
  moreover
  have "\<exists>kernel. createKernel doublePrecision 4 4 28 0 True False = Some (Inr (kernel, 126)) \<and>
      replacement kernel ''THREADS_PER_BLOCK'' = Some ''7'' \<and>
      replacement kernel ''BLOCKS_PER_GROUP'' = Some ''18''"
    using createKernel_thread_counts [of 28 doublePrecision 4 4 0 True False] legalSize_28
    by (auto simp: getSmallestRadix_28 Let_def q doublePrecision_def showInt_small)
  ultimately show ?thesis using legalSize_28 by simp
qed

subsection \<open>Plans built by the constructor\<close>

lemma andThen_Inr_iff:
  "andThen x f = Some (Inr v) \<longleftrightarrow> (\<exists>w. x = Some (Inr w) \<and> f w = Some (Inr v))"
  by (auto simp: andThen_def split: option.splits sum.splits)

lemma newCudaFFT3D_plan:
  assumes "newCudaFFT3D ctx x y z r2c = Some (Inr plan)"
    and "selectPacking x y z r2c = (p, a, px, py, pz)"
  shows "xsize plan = x \<and> ysize plan = y \<and> zsize plan = z \<and> packRealAsComplex plan = p \<and>
    (\<exists>t. createKernel ctx px py pz 0 True (r2c \<and> \<not> p) = Some (Inr (zkernel plan, t))) \<and>
    (\<exists>t. createKernel ctx py pz px 1 True (r2c \<and> \<not> p) = Some (Inr (xkernel plan, t))) \<and>
    (\<exists>t. createKernel ctx pz px py 2 True (r2c \<and> \<not> p) = Some (Inr (ykernel plan, t))) \<and>
    createKernel ctx px py pz 0 False (r2c \<and> \<not> p) = Some (Inr (invzkernel plan, zthreads plan)) \<and>
    createKernel ctx py pz px 1 False (r2c \<and> \<not> p) = Some (Inr (invxkernel plan, xthreads plan)) \<and>
    createKernel ctx pz px py 2 False (r2c \<and> \<not> p) = Some (Inr (invykernel plan, ythreads plan)) \<and>
    (case a of
       None \<Rightarrow> packForwardKernel plan = NullFunction \<and> unpackForwardKernel plan = NullFunction \<and>
         packBackwardKernel plan = NullFunction \<and> unpackBackwardKernel plan = NullFunction
     | Some axis \<Rightarrow>
         packForwardKernel plan =
           Function (packingModule ctx x y z axis px py pz) ''packForwardData'' \<and>
         unpackForwardKernel plan =
           Function (packingModule ctx x y z axis px py pz) ''unpackForwardData'' \<and>
         packBackwardKernel plan =
           Function (packingModule ctx x y z axis px py pz) ''packBackwardData'' \<and>
         unpackBackwardKernel plan =
           Function (packingModule ctx x y z axis px py pz) ''unpackBackwardData'')"
proof -
  have "p \<longleftrightarrow> a \<noteq> None"
    using assms(2) by (auto simp: selectPacking_def split: if_splits)
  then show ?thesis
    using assms by (cases a) (auto simp: newCudaFFT3D_def Let_def andThen_Inr_iff)
qed

lemma newCudaFFT3D_returns:
  assumes sel: "selectPacking x y z r2c = (p, a, px, py, pz)"
    and z: "pz \<noteq> 0" "1 < pz \<longrightarrow> legalSize pz"
    and x: "px \<noteq> 0" "1 < px \<longrightarrow> legalSize px"
    and y: "py \<noteq> 0" "1 < py \<longrightarrow> legalSize py"
  shows "\<exists>plan. newCudaFFT3D ctx x y z r2c = Some (Inr plan)"
proof -
  define iir where "iir = (r2c \<and> \<not> p)"
  obtain zk zt where zk: "createKernel ctx px py pz 0 True iir = Some (Inr (zk, zt))"
    using createKernel_returns z by blast
  obtain izk izt where izk: "createKernel ctx px py pz 0 False iir = Some (Inr (izk, izt))"
    using createKernel_returns z by blast
  obtain xk xt where xk: "createKernel ctx py pz px 1 True iir = Some (Inr (xk, xt))"
    using createKernel_returns x by blast
  obtain ixk ixt where ixk: "createKernel ctx py pz px 1 False iir = Some (Inr (ixk, ixt))"
    using createKernel_returns x by blast
  obtain yk yt where yk: "createKernel ctx pz px py 2 True iir = Some (Inr (yk, yt))"
    using createKernel_returns y by blast
  obtain iyk iyt where iyk: "createKernel ctx pz px py 2 False iir = Some (Inr (iyk, iyt))"
    using createKernel_returns y by blast
  show ?thesis
    by (simp add: newCudaFFT3D_def sel Let_def andThen_simps iir_def [symmetric]
          zk xk yk izk ixk iyk)
qed

lemma createKernel_threads_same:
  assumes "createKernel ctx xs ys zs axis fwd iir = Some (Inr (k, t))"
    and "createKernel ctx xs' ys' zs axis' fwd' iir' = Some (Inr (k', t'))"
  shows "t = t'"
proof -
  have "zs \<noteq> 0" using assms(1) by (auto simp: createKernel_zero)
  then obtain r where r: "getSmallestRadix zs = Some r"
    using getSmallestRadix_returns by blast
  show ?thesis
    using assms unfolding createKernel_unfold [OF r]
    by (cases "stageLoop ctx zs (c_div zs r)
             (max 1 (c_div (if getUseDoublePrecision ctx then 128 else 256) (c_div zs r))) 0 zs 1 []")
       (auto split: prod.splits)
qed

subsection \<open>The final write of a kernel\<close>



lemma createKernel_shape:
  assumes "createKernel ctx xs ys zs axis fwd iir = Some (Inr (k, t))"
  obtains source stage bpg tpb where
    "k = Function
           (FFTModule source
              (finalWrite (iir \<and> axis = 2 \<and> fwd)
                 (if iir \<and> axis = 2 \<and> \<not> fwd then ''.x'' else '''') stage)
              [(''XSIZE'', intToString ctx xs),
               (''YSIZE'', intToString ctx ys),
               (''ZSIZE'', intToString ctx zs),
               (''BLOCKS_PER_GROUP'', intToString ctx bpg),
               (''THREADS_PER_BLOCK'', intToString ctx tpb),
               (''SIGN'', if fwd then ''1'' else ''-1''),
               (''INPUT_TYPE'', if iir \<and> axis = 0 \<and> fwd then ''real'' else ''real2''),
               (''OUTPUT_TYPE'', if iir \<and> axis = 2 \<and> \<not> fwd then ''real'' else ''real2''),
               (''INPUT_IS_REAL'', if iir \<and> axis = 0 \<and> fwd then ''1'' else ''0''),
               (''INPUT_IS_PACKED'', if iir \<and> axis = 0 \<and> \<not> fwd then ''1'' else ''0''),
               (''OUTPUT_IS_PACKED'', if iir \<and> axis = 2 \<and> fwd then ''1'' else ''0'')])
           ''execFFT''"
proof -
  have "zs \<noteq> 0" using assms by (auto simp: createKernel_zero)
  then obtain r where r: "getSmallestRadix zs = Some r"
    using getSmallestRadix_returns by blast
  show ?thesis
  proof (cases "stageLoop ctx zs (c_div zs r)
             (max 1 (c_div (if getUseDoublePrecision ctx then 128 else 256) (c_div zs r))) 0 zs 1 []")
    case (Inl e)
    with assms show ?thesis unfolding createKernel_unfold [OF r] by simp
  next
    case (Inr res)
    obtain stage L m source where "res = (stage, L, m, source)" by (cases res)
    with Inr assms show ?thesis
      unfolding createKernel_unfold [OF r] by (intro that [of source stage]) auto
  qed
qed

lemma legalSize_small: "legalSize 2" "legalSize 3" "legalSize 4" "legalSize 5" "legalSize 7"
  by (rule legalSize_2 legalSize_3 legalSize_4 legalSize_5 legalSize_7)+




subsection \<open>The packing decision\<close>

lemma c_mod_2_even: "c_mod n 2 = 0 \<longleftrightarrow> even n"
  by (simp add: c_mod_eq_0_iff)

lemma c_div_2_half: "even n \<Longrightarrow> 2 * c_div n 2 = n"
  by (simp add: c_div_exact)

lemma selectPacking_5_6_7: "selectPacking 5 6 7 True = (True, Some 1, 5, 3, 7)"
  by (simp add: selectPacking_def c_mod_def c_div_def)

lemma selectPacking_5_7_9: "selectPacking 5 7 9 True = (False, None, 5, 7, 9)"
  by (simp add: selectPacking_def c_mod_def c_div_def)

lemma selectPacking_complex: "selectPacking x y z False = (False, None, x, y, z)"
  by (simp add: selectPacking_def)

lemma selectPacking_unpacked:
  assumes "selectPacking x y z r2c = (False, a, px, py, pz)"
  shows "a = None \<and> px = x \<and> py = y \<and> pz = z"
  using assms by (auto simp: selectPacking_def split: if_splits)

lemma selectPacking_packed:
  assumes "selectPacking x y z r2c = (True, a, px, py, pz)"
  shows "r2c \<and> 2 * (px * py * pz) = x * y * z \<and> even (x * y * z)"
  using assms
  by (auto simp: selectPacking_def c_mod_2_even c_div_2_half split: if_splits)

lemma selectPacking_spec:
  assumes "selectPacking x y z realToComplex = (packed, packedAxis, px, py, pz)"
  shows "(packed \<longleftrightarrow> realToComplex \<and> (even x \<or> even y \<or> even z)) \<and>
         packedAxis =
           (if \<not> packed then None
            else if even x then Some 0 else if even y then Some 1 else Some 2) \<and>
         (packedAxis = Some 0 \<longrightarrow> 2 * px = x \<and> py = y \<and> pz = z) \<and>
         (packedAxis = Some 1 \<longrightarrow> px = x \<and> 2 * py = y \<and> pz = z) \<and>
         (packedAxis = Some 2 \<longrightarrow> px = x \<and> py = y \<and> 2 * pz = z) \<and>
         (packedAxis = None \<longrightarrow> px = x \<and> py = y \<and> pz = z)"
  using assms
  by (auto simp: selectPacking_def c_mod_2_even c_div_2_half split: if_splits)

text \<open>The defines of a kernel that \<^verbatim>\<open>createKernel\<close> hands back.\<close>

lemma createKernel_defines:
  assumes "createKernel ctx xs ys zs axis fwd iir = Some (Inr (k, t))"
  shows "replacement k ''XSIZE'' = Some (intToString ctx xs)"
    and "replacement k ''YSIZE'' = Some (intToString ctx ys)"
    and "replacement k ''ZSIZE'' = Some (intToString ctx zs)"
    and "replacement k ''SIGN'' = Some (if fwd then ''1'' else ''-1'')"
    and "replacement k ''INPUT_TYPE'' = Some (if iir \<and> axis = 0 \<and> fwd then ''real'' else ''real2'')"
    and "replacement k ''OUTPUT_TYPE'' = Some (if iir \<and> axis = 2 \<and> \<not> fwd then ''real'' else ''real2'')"
    and "replacement k ''INPUT_IS_REAL'' = Some (if iir \<and> axis = 0 \<and> fwd then ''1'' else ''0'')"
    and "replacement k ''INPUT_IS_PACKED'' = Some (if iir \<and> axis = 0 \<and> \<not> fwd then ''1'' else ''0'')"
    and "replacement k ''OUTPUT_IS_PACKED'' = Some (if iir \<and> axis = 2 \<and> fwd then ''1'' else ''0'')"
  using assms by (rule createKernel_shape; simp)+

text \<open>
  The axis kernels of a plan and their block sizes: each is what \<^verbatim>\<open>createKernel\<close> hands back
  for the packed size of its axis. The thread counts stored by the forward calls are
  overwritten by the inverse calls with the same values.
\<close>

lemma plan_axis_kernels:
  assumes built: "newCudaFFT3D ctx x y z r2c = Some (Inr plan)"
    and sel: "selectPacking x y z r2c = (p, a, px, py, pz)"
  shows "createKernel ctx px py pz 0 fwd (r2c \<and> \<not> p) =
           Some (Inr (if fwd then zkernel plan else invzkernel plan, zthreads plan))"
    and "createKernel ctx py pz px 1 fwd (r2c \<and> \<not> p) =
           Some (Inr (if fwd then xkernel plan else invxkernel plan, xthreads plan))"
    and "createKernel ctx pz px py 2 fwd (r2c \<and> \<not> p) =
           Some (Inr (if fwd then ykernel plan else invykernel plan, ythreads plan))"
proof -
  note plan = newCudaFFT3D_plan [OF built sel]
  from plan obtain tz tx ty where
    f: "createKernel ctx px py pz 0 True (r2c \<and> \<not> p) = Some (Inr (zkernel plan, tz))"
       "createKernel ctx py pz px 1 True (r2c \<and> \<not> p) = Some (Inr (xkernel plan, tx))"
       "createKernel ctx pz px py 2 True (r2c \<and> \<not> p) = Some (Inr (ykernel plan, ty))"
    by blast
  from plan have
    i: "createKernel ctx px py pz 0 False (r2c \<and> \<not> p) = Some (Inr (invzkernel plan, zthreads plan))"
       "createKernel ctx py pz px 1 False (r2c \<and> \<not> p) = Some (Inr (invxkernel plan, xthreads plan))"
       "createKernel ctx pz px py 2 False (r2c \<and> \<not> p) = Some (Inr (invykernel plan, ythreads plan))"
    by blast+
  have "tz = zthreads plan" using f(1) i(1) by (rule createKernel_threads_same)
  moreover have "tx = xthreads plan" using f(2) i(2) by (rule createKernel_threads_same)
  moreover have "ty = ythreads plan" using f(3) i(3) by (rule createKernel_threads_same)
  ultimately show
    "createKernel ctx px py pz 0 fwd (r2c \<and> \<not> p) =
       Some (Inr (if fwd then zkernel plan else invzkernel plan, zthreads plan))"
    "createKernel ctx py pz px 1 fwd (r2c \<and> \<not> p) =
       Some (Inr (if fwd then xkernel plan else invxkernel plan, xthreads plan))"
    "createKernel ctx pz px py 2 fwd (r2c \<and> \<not> p) =
       Some (Inr (if fwd then ykernel plan else invykernel plan, ythreads plan))"
    using f i by (cases fwd; simp)+
qed

text \<open>The flags that tell the direct real path from the others, read off the kernels of a plan.\<close>

lemma plan_real_flags:
  assumes built: "newCudaFFT3D ctx x y z r2c = Some (Inr plan)"
    and sel: "selectPacking x y z r2c = (p, a, px, py, pz)"
  shows "replacement (zkernel plan) ''INPUT_IS_REAL'' = Some (if r2c \<and> \<not> p then ''1'' else ''0'')"
    and "replacement (zkernel plan) ''INPUT_TYPE'' = Some (if r2c \<and> \<not> p then ''real'' else ''real2'')"
    and "replacement (ykernel plan) ''OUTPUT_IS_PACKED'' = Some (if r2c \<and> \<not> p then ''1'' else ''0'')"
    and "replacement (invzkernel plan) ''INPUT_IS_PACKED'' = Some (if r2c \<and> \<not> p then ''1'' else ''0'')"
    and "replacement (invykernel plan) ''OUTPUT_TYPE'' = Some (if r2c \<and> \<not> p then ''real'' else ''real2'')"
  using createKernel_defines(7) [OF plan_axis_kernels(1) [OF built sel, of True]]
    createKernel_defines(5) [OF plan_axis_kernels(1) [OF built sel, of True]]
    createKernel_defines(9) [OF plan_axis_kernels(3) [OF built sel, of True]]
    createKernel_defines(8) [OF plan_axis_kernels(1) [OF built sel, of False]]
    createKernel_defines(6) [OF plan_axis_kernels(3) [OF built sel, of False]]
  by simp_all

lemma plan_pack_kernels:
  assumes built: "newCudaFFT3D ctx x y z r2c = Some (Inr plan)"
    and sel: "selectPacking x y z r2c = (p, a, px, py, pz)"
  shows "case a of
       None \<Rightarrow> packForwardKernel plan = NullFunction \<and> unpackForwardKernel plan = NullFunction \<and>
         packBackwardKernel plan = NullFunction \<and> unpackBackwardKernel plan = NullFunction
     | Some axis \<Rightarrow>
         packForwardKernel plan =
           Function (packingModule ctx x y z axis px py pz) ''packForwardData'' \<and>
         unpackForwardKernel plan =
           Function (packingModule ctx x y z axis px py pz) ''unpackForwardData'' \<and>
         packBackwardKernel plan =
           Function (packingModule ctx x y z axis px py pz) ''packBackwardData'' \<and>
         unpackBackwardKernel plan =
           Function (packingModule ctx x y z axis px py pz) ''unpackBackwardData'' \<and>
         replacement (packForwardKernel plan) ''PACKED_AXIS'' = Some (intToString ctx axis) \<and>
         replacement (packForwardKernel plan) ''PACKED_XSIZE'' = Some (intToString ctx px) \<and>
         replacement (packForwardKernel plan) ''PACKED_YSIZE'' = Some (intToString ctx py) \<and>
         replacement (packForwardKernel plan) ''PACKED_ZSIZE'' = Some (intToString ctx pz)"
  using newCudaFFT3D_plan [OF built sel] by (cases a) (simp_all add: packingModule_def)

text \<open>
  C4: in a real-to-complex construction with an even size the packing selects exactly one
  axis, the first even one in the order X, Y, Z, and the size of that axis alone is halved
  for the core transform; with three odd sizes, or when the transform is not
  real-to-complex, nothing is packed: \<^verbatim>\<open>packRealAsComplex\<close> is false, no size changes and
  the packing kernels stay null. A plan that the constructor builds carries this decision:
  its six axis kernels and block sizes are what \<^verbatim>\<open>createKernel\<close> hands back for the packed
  sizes, in both directions, with \<^verbatim>\<open>inputIsReal\<close> set exactly when the transform is
  real-to-complex and nothing is packed. That is the direct real path: the forward Z
  kernel reads real input and the forward Y kernel writes the packed columns, the
  inverse Z kernel reads them and the inverse Y kernel stores real output; on every other
  path all kernels are complex to complex. With packing the four packing kernels are built
  for the chosen axis and the packed sizes. The constructor does build the plan whenever
  the three packed sizes are legal or 1. For (5,6,7) the axis Y is packed, for (5,7,9)
  none.
\<close>

theorem packing_selects_first_even_axis:
  assumes "selectPacking x y z realToComplex = (packed, packedAxis, px, py, pz)"
  shows "(packed \<longleftrightarrow> realToComplex \<and> (even x \<or> even y \<or> even z)) \<and>
         packedAxis =
           (if \<not> packed then None
            else if even x then Some 0 else if even y then Some 1 else Some 2) \<and>
         (packedAxis = Some 0 \<longrightarrow> 2 * px = x \<and> py = y \<and> pz = z) \<and>
         (packedAxis = Some 1 \<longrightarrow> px = x \<and> 2 * py = y \<and> pz = z) \<and>
         (packedAxis = Some 2 \<longrightarrow> px = x \<and> py = y \<and> 2 * pz = z) \<and>
         (packedAxis = None \<longrightarrow> px = x \<and> py = y \<and> pz = z) \<and>
         (\<forall>ctx plan. newCudaFFT3D ctx x y z realToComplex = Some (Inr plan) \<longrightarrow>
            xsize plan = x \<and> ysize plan = y \<and> zsize plan = z \<and>
            packRealAsComplex plan = packed \<and>
            (\<forall>forward.
               createKernel ctx px py pz 0 forward (realToComplex \<and> \<not> packed) =
                 Some (Inr (if forward then zkernel plan else invzkernel plan, zthreads plan)) \<and>
               createKernel ctx py pz px 1 forward (realToComplex \<and> \<not> packed) =
                 Some (Inr (if forward then xkernel plan else invxkernel plan, xthreads plan)) \<and>
               createKernel ctx pz px py 2 forward (realToComplex \<and> \<not> packed) =
                 Some (Inr (if forward then ykernel plan else invykernel plan, ythreads plan))) \<and>
            replacement (zkernel plan) ''INPUT_IS_REAL'' =
              Some (if realToComplex \<and> \<not> packed then ''1'' else ''0'') \<and>
            replacement (zkernel plan) ''INPUT_TYPE'' =
              Some (if realToComplex \<and> \<not> packed then ''real'' else ''real2'') \<and>
            replacement (ykernel plan) ''OUTPUT_IS_PACKED'' =
              Some (if realToComplex \<and> \<not> packed then ''1'' else ''0'') \<and>
            replacement (invzkernel plan) ''INPUT_IS_PACKED'' =
              Some (if realToComplex \<and> \<not> packed then ''1'' else ''0'') \<and>
            replacement (invykernel plan) ''OUTPUT_TYPE'' =
              Some (if realToComplex \<and> \<not> packed then ''real'' else ''real2'') \<and>
            replacement (zkernel plan) ''ZSIZE'' = Some (intToString ctx pz) \<and>
            replacement (xkernel plan) ''ZSIZE'' = Some (intToString ctx px) \<and>
            replacement (ykernel plan) ''ZSIZE'' = Some (intToString ctx py) \<and>
            replacement (invzkernel plan) ''ZSIZE'' = Some (intToString ctx pz) \<and>
            replacement (invxkernel plan) ''ZSIZE'' = Some (intToString ctx px) \<and>
            replacement (invykernel plan) ''ZSIZE'' = Some (intToString ctx py) \<and>
            (case packedAxis of
               None \<Rightarrow>
                 packForwardKernel plan = NullFunction \<and>
                 unpackForwardKernel plan = NullFunction \<and>
                 packBackwardKernel plan = NullFunction \<and>
                 unpackBackwardKernel plan = NullFunction
             | Some axis \<Rightarrow>
                 packForwardKernel plan =
                   Function (packingModule ctx x y z axis px py pz) ''packForwardData'' \<and>
                 unpackForwardKernel plan =
                   Function (packingModule ctx x y z axis px py pz) ''unpackForwardData'' \<and>
                 packBackwardKernel plan =
                   Function (packingModule ctx x y z axis px py pz) ''packBackwardData'' \<and>
                 unpackBackwardKernel plan =
                   Function (packingModule ctx x y z axis px py pz) ''unpackBackwardData'' \<and>
                 replacement (packForwardKernel plan) ''PACKED_AXIS'' =
                   Some (intToString ctx axis) \<and>
                 replacement (packForwardKernel plan) ''PACKED_XSIZE'' =
                   Some (intToString ctx px) \<and>
                 replacement (packForwardKernel plan) ''PACKED_YSIZE'' =
                   Some (intToString ctx py) \<and>
                 replacement (packForwardKernel plan) ''PACKED_ZSIZE'' =
                   Some (intToString ctx pz))) \<and>
         (px \<noteq> 0 \<and> py \<noteq> 0 \<and> pz \<noteq> 0 \<and>
          (1 < px \<longrightarrow> legalSize px) \<and> (1 < py \<longrightarrow> legalSize py) \<and> (1 < pz \<longrightarrow> legalSize pz) \<longrightarrow>
            (\<forall>ctx. \<exists>plan. newCudaFFT3D ctx x y z realToComplex = Some (Inr plan)))"
proof -
  note sel = selectPacking_spec [OF assms]
  have plan: "xsize plan = x \<and> ysize plan = y \<and> zsize plan = z \<and>
            packRealAsComplex plan = packed \<and>
            (\<forall>forward.
               createKernel ctx px py pz 0 forward (realToComplex \<and> \<not> packed) =
                 Some (Inr (if forward then zkernel plan else invzkernel plan, zthreads plan)) \<and>
               createKernel ctx py pz px 1 forward (realToComplex \<and> \<not> packed) =
                 Some (Inr (if forward then xkernel plan else invxkernel plan, xthreads plan)) \<and>
               createKernel ctx pz px py 2 forward (realToComplex \<and> \<not> packed) =
                 Some (Inr (if forward then ykernel plan else invykernel plan, ythreads plan))) \<and>
            replacement (zkernel plan) ''INPUT_IS_REAL'' =
              Some (if realToComplex \<and> \<not> packed then ''1'' else ''0'') \<and>
            replacement (zkernel plan) ''INPUT_TYPE'' =
              Some (if realToComplex \<and> \<not> packed then ''real'' else ''real2'') \<and>
            replacement (ykernel plan) ''OUTPUT_IS_PACKED'' =
              Some (if realToComplex \<and> \<not> packed then ''1'' else ''0'') \<and>
            replacement (invzkernel plan) ''INPUT_IS_PACKED'' =
              Some (if realToComplex \<and> \<not> packed then ''1'' else ''0'') \<and>
            replacement (invykernel plan) ''OUTPUT_TYPE'' =
              Some (if realToComplex \<and> \<not> packed then ''real'' else ''real2'') \<and>
            replacement (zkernel plan) ''ZSIZE'' = Some (intToString ctx pz) \<and>
            replacement (xkernel plan) ''ZSIZE'' = Some (intToString ctx px) \<and>
            replacement (ykernel plan) ''ZSIZE'' = Some (intToString ctx py) \<and>
            replacement (invzkernel plan) ''ZSIZE'' = Some (intToString ctx pz) \<and>
            replacement (invxkernel plan) ''ZSIZE'' = Some (intToString ctx px) \<and>
            replacement (invykernel plan) ''ZSIZE'' = Some (intToString ctx py) \<and>
            (case packedAxis of
               None \<Rightarrow>
                 packForwardKernel plan = NullFunction \<and>
                 unpackForwardKernel plan = NullFunction \<and>
                 packBackwardKernel plan = NullFunction \<and>
                 unpackBackwardKernel plan = NullFunction
             | Some axis \<Rightarrow>
                 packForwardKernel plan =
                   Function (packingModule ctx x y z axis px py pz) ''packForwardData'' \<and>
                 unpackForwardKernel plan =
                   Function (packingModule ctx x y z axis px py pz) ''unpackForwardData'' \<and>
                 packBackwardKernel plan =
                   Function (packingModule ctx x y z axis px py pz) ''packBackwardData'' \<and>
                 unpackBackwardKernel plan =
                   Function (packingModule ctx x y z axis px py pz) ''unpackBackwardData'' \<and>
                 replacement (packForwardKernel plan) ''PACKED_AXIS'' =
                   Some (intToString ctx axis) \<and>
                 replacement (packForwardKernel plan) ''PACKED_XSIZE'' =
                   Some (intToString ctx px) \<and>
                 replacement (packForwardKernel plan) ''PACKED_YSIZE'' =
                   Some (intToString ctx py) \<and>
                 replacement (packForwardKernel plan) ''PACKED_ZSIZE'' =
                   Some (intToString ctx pz))"
    if built: "newCudaFFT3D ctx x y z realToComplex = Some (Inr plan)" for ctx plan
  proof -
    have fields: "xsize plan = x" "ysize plan = y" "zsize plan = z"
        "packRealAsComplex plan = packed"
      using newCudaFFT3D_plan [OF built assms] by simp_all
    have calls: "\<forall>forward.
               createKernel ctx px py pz 0 forward (realToComplex \<and> \<not> packed) =
                 Some (Inr (if forward then zkernel plan else invzkernel plan, zthreads plan)) \<and>
               createKernel ctx py pz px 1 forward (realToComplex \<and> \<not> packed) =
                 Some (Inr (if forward then xkernel plan else invxkernel plan, xthreads plan)) \<and>
               createKernel ctx pz px py 2 forward (realToComplex \<and> \<not> packed) =
                 Some (Inr (if forward then ykernel plan else invykernel plan, ythreads plan))"
      using plan_axis_kernels [OF built assms] by blast
    have sizes: "replacement (zkernel plan) ''ZSIZE'' = Some (intToString ctx pz)"
        "replacement (xkernel plan) ''ZSIZE'' = Some (intToString ctx px)"
        "replacement (ykernel plan) ''ZSIZE'' = Some (intToString ctx py)"
        "replacement (invzkernel plan) ''ZSIZE'' = Some (intToString ctx pz)"
        "replacement (invxkernel plan) ''ZSIZE'' = Some (intToString ctx px)"
        "replacement (invykernel plan) ''ZSIZE'' = Some (intToString ctx py)"
      using createKernel_defines(3) [OF plan_axis_kernels(1) [OF built assms, of True]]
        createKernel_defines(3) [OF plan_axis_kernels(2) [OF built assms, of True]]
        createKernel_defines(3) [OF plan_axis_kernels(3) [OF built assms, of True]]
        createKernel_defines(3) [OF plan_axis_kernels(1) [OF built assms, of False]]
        createKernel_defines(3) [OF plan_axis_kernels(2) [OF built assms, of False]]
        createKernel_defines(3) [OF plan_axis_kernels(3) [OF built assms, of False]]
      by simp_all
    from fields calls plan_real_flags [OF built assms] sizes plan_pack_kernels [OF built assms]
    show ?thesis by (intro conjI)
  qed
  have returns: "\<forall>ctx. \<exists>plan. newCudaFFT3D ctx x y z realToComplex = Some (Inr plan)"
    if "px \<noteq> 0 \<and> py \<noteq> 0 \<and> pz \<noteq> 0 \<and>
          (1 < px \<longrightarrow> legalSize px) \<and> (1 < py \<longrightarrow> legalSize py) \<and> (1 < pz \<longrightarrow> legalSize pz)"
    using newCudaFFT3D_returns [OF assms] that by blast
  from sel plan returns show ?thesis by blast
qed

theorem packing_selects_first_even_axis_witness:
  "selectPacking 5 6 7 True = (True, Some 1, 5, 3, 7) \<and>
   selectPacking 5 7 9 True = (False, None, 5, 7, 9) \<and>
   (\<exists>plan. newCudaFFT3D singlePrecision 5 6 7 True = Some (Inr plan) \<and>
      packRealAsComplex plan \<and>
      createKernel singlePrecision 5 3 7 0 True False = Some (Inr (zkernel plan, zthreads plan)) \<and>
      createKernel singlePrecision 3 7 5 1 True False = Some (Inr (xkernel plan, xthreads plan)) \<and>
      createKernel singlePrecision 7 5 3 2 True False = Some (Inr (ykernel plan, ythreads plan)) \<and>
      createKernel singlePrecision 5 3 7 0 False False = Some (Inr (invzkernel plan, zthreads plan)) \<and>
      createKernel singlePrecision 3 7 5 1 False False = Some (Inr (invxkernel plan, xthreads plan)) \<and>
      createKernel singlePrecision 7 5 3 2 False False = Some (Inr (invykernel plan, ythreads plan)) \<and>
      replacement (zkernel plan) ''ZSIZE'' = Some ''7'' \<and>
      replacement (xkernel plan) ''ZSIZE'' = Some ''5'' \<and>
      replacement (ykernel plan) ''ZSIZE'' = Some ''3'' \<and>
      replacement (zkernel plan) ''INPUT_IS_REAL'' = Some ''0'' \<and>
      replacement (invykernel plan) ''OUTPUT_TYPE'' = Some ''real2'' \<and>
      replacement (packForwardKernel plan) ''PACKED_AXIS'' = Some ''1'' \<and>
      replacement (packForwardKernel plan) ''PACKED_YSIZE'' = Some ''3'') \<and>
   (\<exists>plan. newCudaFFT3D singlePrecision 5 7 9 True = Some (Inr plan) \<and>
      \<not> packRealAsComplex plan \<and>
      createKernel singlePrecision 5 7 9 0 True True = Some (Inr (zkernel plan, zthreads plan)) \<and>
      createKernel singlePrecision 9 5 7 2 False True = Some (Inr (invykernel plan, ythreads plan)) \<and>
      replacement (zkernel plan) ''ZSIZE'' = Some ''9'' \<and>
      replacement (zkernel plan) ''INPUT_IS_REAL'' = Some ''1'' \<and>
      replacement (zkernel plan) ''INPUT_TYPE'' = Some ''real'' \<and>
      replacement (ykernel plan) ''OUTPUT_IS_PACKED'' = Some ''1'' \<and>
      replacement (invzkernel plan) ''INPUT_IS_PACKED'' = Some ''1'' \<and>
      replacement (invykernel plan) ''OUTPUT_TYPE'' = Some ''real'' \<and>
      packForwardKernel plan = NullFunction \<and> unpackForwardKernel plan = NullFunction \<and>
      packBackwardKernel plan = NullFunction \<and> unpackBackwardKernel plan = NullFunction)"
proof -
  have s: "showInt 9 = ''9''" "showInt 7 = ''7''" "showInt 5 = ''5''" "showInt 3 = ''3''"
      "showInt 1 = ''1''"
    by (simp_all add: showInt_def showNat.simps digit_def)
  note packed = packing_selects_first_even_axis [OF selectPacking_5_6_7]
  note direct = packing_selects_first_even_axis [OF selectPacking_5_7_9]
  have "\<forall>ctx. \<exists>plan. newCudaFFT3D ctx 5 6 7 True = Some (Inr plan)"
    using packed [THEN conjunct2, THEN conjunct2, THEN conjunct2, THEN conjunct2, THEN conjunct2,
        THEN conjunct2, THEN conjunct2] legalSize_small
    by simp
  then obtain plan1 where 1: "newCudaFFT3D singlePrecision 5 6 7 True = Some (Inr plan1)"
    by blast
  have "\<forall>ctx. \<exists>plan. newCudaFFT3D ctx 5 7 9 True = Some (Inr plan)"
    using direct [THEN conjunct2, THEN conjunct2, THEN conjunct2, THEN conjunct2, THEN conjunct2,
        THEN conjunct2, THEN conjunct2] legalSize_small legalSize_9
    by simp
  then obtain plan2 where 2: "newCudaFFT3D singlePrecision 5 7 9 True = Some (Inr plan2)"
    by blast
  have "packRealAsComplex plan1 \<and>
      createKernel singlePrecision 5 3 7 0 True False = Some (Inr (zkernel plan1, zthreads plan1)) \<and>
      createKernel singlePrecision 3 7 5 1 True False = Some (Inr (xkernel plan1, xthreads plan1)) \<and>
      createKernel singlePrecision 7 5 3 2 True False = Some (Inr (ykernel plan1, ythreads plan1)) \<and>
      createKernel singlePrecision 5 3 7 0 False False = Some (Inr (invzkernel plan1, zthreads plan1)) \<and>
      createKernel singlePrecision 3 7 5 1 False False = Some (Inr (invxkernel plan1, xthreads plan1)) \<and>
      createKernel singlePrecision 7 5 3 2 False False = Some (Inr (invykernel plan1, ythreads plan1)) \<and>
      replacement (zkernel plan1) ''ZSIZE'' = Some ''7'' \<and>
      replacement (xkernel plan1) ''ZSIZE'' = Some ''5'' \<and>
      replacement (ykernel plan1) ''ZSIZE'' = Some ''3'' \<and>
      replacement (zkernel plan1) ''INPUT_IS_REAL'' = Some ''0'' \<and>
      replacement (invykernel plan1) ''OUTPUT_TYPE'' = Some ''real2'' \<and>
      replacement (packForwardKernel plan1) ''PACKED_AXIS'' = Some ''1'' \<and>
      replacement (packForwardKernel plan1) ''PACKED_YSIZE'' = Some ''3''"
    using packed [THEN conjunct2, THEN conjunct2, THEN conjunct2, THEN conjunct2, THEN conjunct2,
        THEN conjunct2, THEN conjunct1, rule_format, OF 1]
    by (auto simp: singlePrecision_def s dest: spec [where x = True] spec [where x = False])
  moreover
  have "\<not> packRealAsComplex plan2 \<and>
      createKernel singlePrecision 5 7 9 0 True True = Some (Inr (zkernel plan2, zthreads plan2)) \<and>
      createKernel singlePrecision 9 5 7 2 False True = Some (Inr (invykernel plan2, ythreads plan2)) \<and>
      replacement (zkernel plan2) ''ZSIZE'' = Some ''9'' \<and>
      replacement (zkernel plan2) ''INPUT_IS_REAL'' = Some ''1'' \<and>
      replacement (zkernel plan2) ''INPUT_TYPE'' = Some ''real'' \<and>
      replacement (ykernel plan2) ''OUTPUT_IS_PACKED'' = Some ''1'' \<and>
      replacement (invzkernel plan2) ''INPUT_IS_PACKED'' = Some ''1'' \<and>
      replacement (invykernel plan2) ''OUTPUT_TYPE'' = Some ''real'' \<and>
      packForwardKernel plan2 = NullFunction \<and> unpackForwardKernel plan2 = NullFunction \<and>
      packBackwardKernel plan2 = NullFunction \<and> unpackBackwardKernel plan2 = NullFunction"
    using direct [THEN conjunct2, THEN conjunct2, THEN conjunct2, THEN conjunct2, THEN conjunct2,
        THEN conjunct2, THEN conjunct1, rule_format, OF 2]
    by (auto simp: singlePrecision_def s dest: spec [where x = True] spec [where x = False])
  ultimately show ?thesis
    using 1 2 selectPacking_5_6_7 selectPacking_5_7_9 by blast
qed

subsection \<open>The launches of execFFT\<close>

lemma mul32_representable:
  "representable (a * b) \<Longrightarrow> mul32 a b = a * b"
  by (simp add: mul32_def representable_def int32_id)

lemma gridProduct_representable:
  assumes "representable (x * y)" "representable (x * y * z)"
  shows "mul32 (mul32 x y) z = x * y * z"
  using assms by (simp add: mul32_representable)

text \<open>The launches of the two paths, with the grid size as the code computes it.\<close>

lemma execFFT_direct:
  assumes "\<not> packRealAsComplex plan"
  shows "execFFT plan in' out forward log =
     log @
     [\<lparr>launch_kernel = (if forward then zkernel plan else invzkernel plan),
       launch_args = [getDevicePointer in', getDevicePointer out],
       launch_threads = mul32 (mul32 (xsize plan) (ysize plan)) (zsize plan),
       launch_blockSize = zthreads plan\<rparr>,
      \<lparr>launch_kernel = (if forward then xkernel plan else invxkernel plan),
       launch_args = [getDevicePointer out, getDevicePointer in'],
       launch_threads = mul32 (mul32 (xsize plan) (ysize plan)) (zsize plan),
       launch_blockSize = xthreads plan\<rparr>,
      \<lparr>launch_kernel = (if forward then ykernel plan else invykernel plan),
       launch_args = [getDevicePointer in', getDevicePointer out],
       launch_threads = mul32 (mul32 (xsize plan) (ysize plan)) (zsize plan),
       launch_blockSize = ythreads plan\<rparr>]"
  using assms unfolding execFFT_def executeKernel_def Let_def
  by (simp split del: if_split)

lemma execFFT_packed:
  assumes "packRealAsComplex plan"
  shows "execFFT plan in' out forward log =
     log @
     [\<lparr>launch_kernel = (if forward then packForwardKernel plan else packBackwardKernel plan),
       launch_args = [getDevicePointer in', getDevicePointer out],
       launch_threads = c_div (mul32 (mul32 (xsize plan) (ysize plan)) (zsize plan)) 2,
       launch_blockSize = 128\<rparr>,
      \<lparr>launch_kernel = (if forward then zkernel plan else invzkernel plan),
       launch_args = [getDevicePointer out, getDevicePointer in'],
       launch_threads = c_div (mul32 (mul32 (xsize plan) (ysize plan)) (zsize plan)) 2,
       launch_blockSize = zthreads plan\<rparr>,
      \<lparr>launch_kernel = (if forward then xkernel plan else invxkernel plan),
       launch_args = [getDevicePointer in', getDevicePointer out],
       launch_threads = c_div (mul32 (mul32 (xsize plan) (ysize plan)) (zsize plan)) 2,
       launch_blockSize = xthreads plan\<rparr>,
      \<lparr>launch_kernel = (if forward then ykernel plan else invykernel plan),
       launch_args = [getDevicePointer out, getDevicePointer in'],
       launch_threads = c_div (mul32 (mul32 (xsize plan) (ysize plan)) (zsize plan)) 2,
       launch_blockSize = ythreads plan\<rparr>,
      \<lparr>launch_kernel = (if forward then unpackForwardKernel plan else unpackBackwardKernel plan),
       launch_args = [getDevicePointer in', getDevicePointer out],
       launch_threads = c_div (mul32 (mul32 (xsize plan) (ysize plan)) (zsize plan)) 2,
       launch_blockSize = 128\<rparr>]"
  using assms unfolding execFFT_def executeKernel_def Let_def
  by (simp split del: if_split)

text \<open>The block size that \<^verbatim>\<open>createKernel\<close> stores, from the smallest radix.\<close>

lemma createKernel_threads:
  assumes "createKernel ctx xs ys zs axis fwd iir = Some (Inr (k, t))"
    and r: "getSmallestRadix zs = Some r"
  shows "t = max 1 (c_div (if getUseDoublePrecision ctx then 128 else 256) (c_div zs r)) *
             c_div zs r"
  using assms(1) unfolding createKernel_unfold [OF r]
  by (cases "stageLoop ctx zs (c_div zs r)
             (max 1 (c_div (if getUseDoublePrecision ctx then 128 else 256) (c_div zs r))) 0 zs 1 []")
     (auto split: prod.splits)

lemma getSmallestRadix_6_8: "getSmallestRadix 6 = Some 2" "getSmallestRadix 8 = Some 2"
  by (simp_all add: getSmallestRadix_def whileDivides.simps c_mod_def c_div_def)

lemma legalSize_8: "legalSize 8"
  using legalSize_power [OF legalSize_2, of 3] by simp

lemma legalSize_1024: "legalSize 1024"
  using legalSize_power [OF legalSize_2, of 10] by simp

lemma legalSize_2048: "legalSize 2048"
  using legalSize_power [OF legalSize_2, of 11] by simp

lemma selectPacking_4_4_4: "selectPacking 4 4 4 True = (True, Some 0, 2, 4, 4)"
  by (simp add: selectPacking_def c_mod_def c_div_def)

lemma selectPacking_12_28_8: "selectPacking 12 28 8 True = (True, Some 0, 6, 28, 8)"
  by (simp add: selectPacking_def c_mod_def c_div_def)

text \<open>The block sizes of the axis kernels for the lengths 8, 6 and 28 in single precision.\<close>

lemma threads_8_6_28:
  assumes "createKernel singlePrecision a b 8 0 fz rz = Some (Inr (kz, tz))"
    and "createKernel singlePrecision c d 6 1 fx rx = Some (Inr (kx, tx))"
    and "createKernel singlePrecision e f 28 2 fy ry = Some (Inr (ky, ty))"
  shows "tz = 256" "tx = 255" "ty = 252"
  using createKernel_threads [OF assms(1) getSmallestRadix_6_8(2)]
    createKernel_threads [OF assms(2) getSmallestRadix_6_8(1)]
    createKernel_threads [OF assms(3) getSmallestRadix_28]
  by (simp_all add: singlePrecision_def c_div_def)

text \<open>
  C5, as stated: every call on a plan without packing covers \<open>sizeX*sizeY*sizeZ\<close> elements
  with each of its launches. The sizes and the number of threads of a launch are
  \<^verbatim>\<open>int\<close>s. For the complex grid (2048, 2048, 1024), whose three sizes are legal, the plan is
  built and has \<open>2^32\<close> elements; the product \<^verbatim>\<open>xsize*ysize*zsize\<close> of the call leaves the
  range of \<^verbatim>\<open>int\<close> and each of the three launches is issued over 0 elements.
\<close>

theorem direct_path_grid_exceeds_int:
  "(case newCudaFFT3D singlePrecision 2048 2048 1024 False of
      Some (Inr plan) \<Rightarrow>
        \<not> packRealAsComplex plan \<and>
        xsize plan * ysize plan * zsize plan = 4294967296 \<and>
        map launch_threads
          (execFFT plan \<lparr>getDevicePointer = 100\<rparr> \<lparr>getDevicePointer = 200\<rparr> True []) =
          [0, 0, 0]
    | _ \<Rightarrow> False)"
proof -
  obtain plan where plan: "newCudaFFT3D singlePrecision 2048 2048 1024 False = Some (Inr plan)"
    using newCudaFFT3D_returns [OF selectPacking_complex, of 1024 2048 2048 singlePrecision]
      legalSize_1024 legalSize_2048
    by auto
  from newCudaFFT3D_plan [OF plan selectPacking_complex]
  have p: "\<not> packRealAsComplex plan" "xsize plan = 2048" "ysize plan = 2048" "zsize plan = 1024"
    by simp_all
  show ?thesis
    by (simp add: plan execFFT_direct [OF p(1)] p mul32_def int32_def)
qed

text \<open>
  C5, amended: on a plan without packing whose products \<^verbatim>\<open>xsize*ysize\<close> and
  \<^verbatim>\<open>xsize*ysize*zsize\<close> are representable as \<^verbatim>\<open>int\<close>, \<^verbatim>\<open>execFFT\<close> issues exactly three
  launches, in the order Z, X, Y axis kernel (the inverse kernels when \<^verbatim>\<open>forward\<close> is
  false), with the arguments \<^verbatim>\<open>(in, out)\<close>, \<^verbatim>\<open>(out, in)\<close>, \<^verbatim>\<open>(in, out)\<close>, each over
  \<open>xsize*ysize*zsize\<close> elements and with the block size of its axis (\<^verbatim>\<open>zthreads\<close>,
  \<^verbatim>\<open>xthreads\<close>, \<^verbatim>\<open>ythreads\<close>). In a plan built by the constructor these kernels and
  block sizes are what \<^verbatim>\<open>createKernel\<close> handed back for the transforms of length
  \<^verbatim>\<open>zsize\<close>, \<^verbatim>\<open>xsize\<close> and \<^verbatim>\<open>ysize\<close>.
\<close>

theorem direct_path_launches:
  assumes "\<not> packRealAsComplex plan"
    and "representable (xsize plan * ysize plan)"
    and "representable (xsize plan * ysize plan * zsize plan)"
  shows "execFFT plan in' out forward log =
     log @
     [\<lparr>launch_kernel = (if forward then zkernel plan else invzkernel plan),
       launch_args = [getDevicePointer in', getDevicePointer out],
       launch_threads = xsize plan * ysize plan * zsize plan,
       launch_blockSize = zthreads plan\<rparr>,
      \<lparr>launch_kernel = (if forward then xkernel plan else invxkernel plan),
       launch_args = [getDevicePointer out, getDevicePointer in'],
       launch_threads = xsize plan * ysize plan * zsize plan,
       launch_blockSize = xthreads plan\<rparr>,
      \<lparr>launch_kernel = (if forward then ykernel plan else invykernel plan),
       launch_args = [getDevicePointer in', getDevicePointer out],
       launch_threads = xsize plan * ysize plan * zsize plan,
       launch_blockSize = ythreads plan\<rparr>] \<and>
     (\<forall>ctx x y z r2c. newCudaFFT3D ctx x y z r2c = Some (Inr plan) \<longrightarrow>
        xsize plan = x \<and> ysize plan = y \<and> zsize plan = z \<and>
        createKernel ctx x y z 0 forward r2c =
          Some (Inr (if forward then zkernel plan else invzkernel plan, zthreads plan)) \<and>
        createKernel ctx y z x 1 forward r2c =
          Some (Inr (if forward then xkernel plan else invxkernel plan, xthreads plan)) \<and>
        createKernel ctx z x y 2 forward r2c =
          Some (Inr (if forward then ykernel plan else invykernel plan, ythreads plan)))"
proof -
  have "xsize plan = x \<and> ysize plan = y \<and> zsize plan = z \<and>
        createKernel ctx x y z 0 forward r2c =
          Some (Inr (if forward then zkernel plan else invzkernel plan, zthreads plan)) \<and>
        createKernel ctx y z x 1 forward r2c =
          Some (Inr (if forward then xkernel plan else invxkernel plan, xthreads plan)) \<and>
        createKernel ctx z x y 2 forward r2c =
          Some (Inr (if forward then ykernel plan else invykernel plan, ythreads plan))"
    if built: "newCudaFFT3D ctx x y z r2c = Some (Inr plan)" for ctx x y z r2c
  proof -
    obtain p a px py pz where sel: "selectPacking x y z r2c = (p, a, px, py, pz)"
      by (cases "selectPacking x y z r2c") auto
    from newCudaFFT3D_plan [OF built sel] assms(1)
    have eq: "xsize plan = x" "ysize plan = y" "zsize plan = z" "\<not> p" by auto
    with sel have same: "px = x" "py = y" "pz = z"
      using selectPacking_unpacked [of x y z r2c a px py pz] by simp_all
    show ?thesis
      using plan_axis_kernels [OF built sel, of forward] eq same by simp
  qed
  moreover have "mul32 (mul32 (xsize plan) (ysize plan)) (zsize plan) =
      xsize plan * ysize plan * zsize plan"
    using assms(2,3) by (rule gridProduct_representable)
  ultimately show ?thesis
    using execFFT_direct [OF assms(1), of in' out forward log] by simp
qed

theorem direct_path_launches_witness:
  "\<exists>plan. newCudaFFT3D singlePrecision 6 28 8 False = Some (Inr plan) \<and>
     \<not> packRealAsComplex plan \<and>
     representable (xsize plan * ysize plan) \<and>
     representable (xsize plan * ysize plan * zsize plan) \<and>
     execFFT plan \<lparr>getDevicePointer = 100\<rparr> \<lparr>getDevicePointer = 200\<rparr> True [] =
       [\<lparr>launch_kernel = zkernel plan, launch_args = [100, 200],
         launch_threads = 1344, launch_blockSize = 256\<rparr>,
        \<lparr>launch_kernel = xkernel plan, launch_args = [200, 100],
         launch_threads = 1344, launch_blockSize = 255\<rparr>,
        \<lparr>launch_kernel = ykernel plan, launch_args = [100, 200],
         launch_threads = 1344, launch_blockSize = 252\<rparr>] \<and>
     execFFT plan \<lparr>getDevicePointer = 100\<rparr> \<lparr>getDevicePointer = 200\<rparr> False [] =
       [\<lparr>launch_kernel = invzkernel plan, launch_args = [100, 200],
         launch_threads = 1344, launch_blockSize = 256\<rparr>,
        \<lparr>launch_kernel = invxkernel plan, launch_args = [200, 100],
         launch_threads = 1344, launch_blockSize = 255\<rparr>,
        \<lparr>launch_kernel = invykernel plan, launch_args = [100, 200],
         launch_threads = 1344, launch_blockSize = 252\<rparr>] \<and>
     createKernel singlePrecision 6 28 8 0 True False = Some (Inr (zkernel plan, 256)) \<and>
     createKernel singlePrecision 28 8 6 1 True False = Some (Inr (xkernel plan, 255)) \<and>
     createKernel singlePrecision 8 6 28 2 True False = Some (Inr (ykernel plan, 252)) \<and>
     createKernel singlePrecision 6 28 8 0 False False = Some (Inr (invzkernel plan, 256)) \<and>
     createKernel singlePrecision 28 8 6 1 False False = Some (Inr (invxkernel plan, 255)) \<and>
     createKernel singlePrecision 8 6 28 2 False False = Some (Inr (invykernel plan, 252)) \<and>
     replacement (zkernel plan) ''ZSIZE'' = Some ''8'' \<and>
     replacement (xkernel plan) ''ZSIZE'' = Some ''6'' \<and>
     replacement (ykernel plan) ''ZSIZE'' = Some ''28''"
proof -
  obtain plan where plan: "newCudaFFT3D singlePrecision 6 28 8 False = Some (Inr plan)"
    using newCudaFFT3D_returns [OF selectPacking_complex, of 8 6 28 singlePrecision]
      legalSize_8 legalSize_6 legalSize_28
    by auto
  from newCudaFFT3D_plan [OF plan selectPacking_complex]
  have p: "\<not> packRealAsComplex plan" "xsize plan = 6" "ysize plan = 28" "zsize plan = 8"
    by simp_all
  have r: "representable (xsize plan * ysize plan)"
      "representable (xsize plan * ysize plan * zsize plan)"
    by (simp_all add: p representable_def INT_MIN_def INT_MAX_def)
  note k = plan_axis_kernels [OF plan selectPacking_complex]
  note t = threads_8_6_28 [OF k(1) [of True] k(2) [of True] k(3) [of True]]
  have s: "showInt 8 = ''8''" "showInt 6 = ''6''" "showInt 28 = ''28''"
    by (simp_all add: showInt_def showNat.simps digit_def)
  have z: "replacement (zkernel plan) ''ZSIZE'' = Some ''8''"
      "replacement (xkernel plan) ''ZSIZE'' = Some ''6''"
      "replacement (ykernel plan) ''ZSIZE'' = Some ''28''"
    using createKernel_defines(3) [OF k(1) [of True]] createKernel_defines(3) [OF k(2) [of True]]
      createKernel_defines(3) [OF k(3) [of True]]
    by (simp_all add: singlePrecision_def s)
  have kz: "createKernel singlePrecision 6 28 8 0 True False = Some (Inr (zkernel plan, 256))"
      "createKernel singlePrecision 6 28 8 0 False False = Some (Inr (invzkernel plan, 256))"
    using k(1) [of True] k(1) [of False] t(1) by simp_all
  have kx: "createKernel singlePrecision 28 8 6 1 True False = Some (Inr (xkernel plan, 255))"
      "createKernel singlePrecision 28 8 6 1 False False = Some (Inr (invxkernel plan, 255))"
    using k(2) [of True] k(2) [of False] t(2) by simp_all
  have ky: "createKernel singlePrecision 8 6 28 2 True False = Some (Inr (ykernel plan, 252))"
      "createKernel singlePrecision 8 6 28 2 False False = Some (Inr (invykernel plan, 252))"
    using k(3) [of True] k(3) [of False] t(3) by simp_all
  note launches = direct_path_launches [OF p(1) r, THEN conjunct1,
      of "\<lparr>getDevicePointer = 100\<rparr>" "\<lparr>getDevicePointer = 200\<rparr>" _ "[]"]
  have fwd: "execFFT plan \<lparr>getDevicePointer = 100\<rparr> \<lparr>getDevicePointer = 200\<rparr> True [] =
       [\<lparr>launch_kernel = zkernel plan, launch_args = [100, 200],
         launch_threads = 1344, launch_blockSize = 256\<rparr>,
        \<lparr>launch_kernel = xkernel plan, launch_args = [200, 100],
         launch_threads = 1344, launch_blockSize = 255\<rparr>,
        \<lparr>launch_kernel = ykernel plan, launch_args = [100, 200],
         launch_threads = 1344, launch_blockSize = 252\<rparr>]"
    unfolding launches [of True] by (simp add: p t)
  have bwd: "execFFT plan \<lparr>getDevicePointer = 100\<rparr> \<lparr>getDevicePointer = 200\<rparr> False [] =
       [\<lparr>launch_kernel = invzkernel plan, launch_args = [100, 200],
         launch_threads = 1344, launch_blockSize = 256\<rparr>,
        \<lparr>launch_kernel = invxkernel plan, launch_args = [200, 100],
         launch_threads = 1344, launch_blockSize = 255\<rparr>,
        \<lparr>launch_kernel = invykernel plan, launch_args = [100, 200],
         launch_threads = 1344, launch_blockSize = 252\<rparr>]"
    unfolding launches [of False] by (simp add: p t)
  from plan p(1) r fwd bwd kz kx ky z show ?thesis
    by (intro exI [of _ plan] conjI)
qed

text \<open>
  The bound on the products is needed on the packed path as well: for the real grid
  (2048, 2048, 1024) the plan is built with X packed, half of its element count is \<open>2^31\<close>,
  and the five launches are issued over 0 elements.
\<close>

lemma packed_path_grid_exceeds_int:
  "(case newCudaFFT3D singlePrecision 2048 2048 1024 True of
      Some (Inr plan) \<Rightarrow>
        packRealAsComplex plan \<and>
        c_div (xsize plan * ysize plan * zsize plan) 2 = 2147483648 \<and>
        map launch_threads
          (execFFT plan \<lparr>getDevicePointer = 100\<rparr> \<lparr>getDevicePointer = 200\<rparr> True []) =
          [0, 0, 0, 0, 0]
    | _ \<Rightarrow> False)"
proof -
  have sel: "selectPacking 2048 2048 1024 True = (True, Some 0, 1024, 2048, 1024)"
    by (simp add: selectPacking_def c_mod_def c_div_def)
  obtain plan where plan: "newCudaFFT3D singlePrecision 2048 2048 1024 True = Some (Inr plan)"
    using newCudaFFT3D_returns [OF sel, of singlePrecision] legalSize_1024 legalSize_2048
    by auto
  from newCudaFFT3D_plan [OF plan sel]
  have p: "packRealAsComplex plan" "xsize plan = 2048" "ysize plan = 2048" "zsize plan = 1024"
    by simp_all
  show ?thesis
    by (simp add: plan execFFT_packed [OF p(1)] p mul32_def int32_def c_div_def)
qed

text \<open>
  C6, as stated: on a plan with packing the three axis kernels use the same alternation of
  buffers as the direct path (\<^verbatim>\<open>(in, out)\<close> first), and the pack kernel writes into the
  input buffer. In the code the pack kernel is launched with \<^verbatim>\<open>(in, out)\<close>, as the first
  kernel of the direct path is, so it writes \<^verbatim>\<open>out\<close>, and the axis kernels follow with
  \<^verbatim>\<open>(out, in)\<close>, \<^verbatim>\<open>(in, out)\<close>, \<^verbatim>\<open>(out, in)\<close>: the opposite phase of the direct path,
  shown below on the same plan with the packing flag cleared.
\<close>

theorem packed_path_alternation_differs:
  "(case newCudaFFT3D singlePrecision 4 4 4 True of
      Some (Inr plan) \<Rightarrow>
        packRealAsComplex plan \<and>
        map launch_args
          (execFFT plan \<lparr>getDevicePointer = 100\<rparr> \<lparr>getDevicePointer = 200\<rparr> True []) =
          [[100, 200], [200, 100], [100, 200], [200, 100], [100, 200]] \<and>
        map launch_args
          (execFFT (plan\<lparr>packRealAsComplex := False\<rparr>)
             \<lparr>getDevicePointer = 100\<rparr> \<lparr>getDevicePointer = 200\<rparr> True []) =
          [[100, 200], [200, 100], [100, 200]]
    | _ \<Rightarrow> False)"
proof -
  obtain plan where plan: "newCudaFFT3D singlePrecision 4 4 4 True = Some (Inr plan)"
    using newCudaFFT3D_returns [OF selectPacking_4_4_4, of singlePrecision] legalSize_2 legalSize_4
    by auto
  from newCudaFFT3D_plan [OF plan selectPacking_4_4_4]
  have "packRealAsComplex plan" by simp
  then show ?thesis
    by (simp add: plan execFFT_def executeKernel_def Let_def)
qed

text \<open>
  C6, amended: on a plan with packing whose products \<^verbatim>\<open>xsize*ysize\<close> and
  \<^verbatim>\<open>xsize*ysize*zsize\<close> are representable as \<^verbatim>\<open>int\<close>, \<^verbatim>\<open>execFFT\<close> issues exactly five
  launches, all over \<open>xsize*ysize*zsize/2\<close> elements: the pack kernel with block size 128 and
  arguments \<^verbatim>\<open>(in, out)\<close>; the Z, X and Y axis kernels (the inverse ones when \<^verbatim>\<open>forward\<close>
  is false) with their axes' block sizes and arguments \<^verbatim>\<open>(out, in)\<close>, \<^verbatim>\<open>(in, out)\<close>,
  \<^verbatim>\<open>(out, in)\<close>; the unpack kernel with block size 128 and arguments \<^verbatim>\<open>(in, out)\<close>.
  In a plan built by the constructor one size is even, so the grid is exactly half of the
  element count and equals the number of elements of the packed grid, and the axis kernels
  and block sizes are what \<^verbatim>\<open>createKernel\<close> handed back for the packed sizes.
\<close>

theorem packed_path_launches:
  assumes "packRealAsComplex plan"
    and "representable (xsize plan * ysize plan)"
    and "representable (xsize plan * ysize plan * zsize plan)"
  shows "execFFT plan in' out forward log =
     log @
     [\<lparr>launch_kernel = (if forward then packForwardKernel plan else packBackwardKernel plan),
       launch_args = [getDevicePointer in', getDevicePointer out],
       launch_threads = c_div (xsize plan * ysize plan * zsize plan) 2,
       launch_blockSize = 128\<rparr>,
      \<lparr>launch_kernel = (if forward then zkernel plan else invzkernel plan),
       launch_args = [getDevicePointer out, getDevicePointer in'],
       launch_threads = c_div (xsize plan * ysize plan * zsize plan) 2,
       launch_blockSize = zthreads plan\<rparr>,
      \<lparr>launch_kernel = (if forward then xkernel plan else invxkernel plan),
       launch_args = [getDevicePointer in', getDevicePointer out],
       launch_threads = c_div (xsize plan * ysize plan * zsize plan) 2,
       launch_blockSize = xthreads plan\<rparr>,
      \<lparr>launch_kernel = (if forward then ykernel plan else invykernel plan),
       launch_args = [getDevicePointer out, getDevicePointer in'],
       launch_threads = c_div (xsize plan * ysize plan * zsize plan) 2,
       launch_blockSize = ythreads plan\<rparr>,
      \<lparr>launch_kernel = (if forward then unpackForwardKernel plan else unpackBackwardKernel plan),
       launch_args = [getDevicePointer in', getDevicePointer out],
       launch_threads = c_div (xsize plan * ysize plan * zsize plan) 2,
       launch_blockSize = 128\<rparr>] \<and>
     (\<forall>ctx x y z r2c p a px py pz.
        newCudaFFT3D ctx x y z r2c = Some (Inr plan) \<and>
        selectPacking x y z r2c = (p, a, px, py, pz) \<longrightarrow>
        2 * c_div (xsize plan * ysize plan * zsize plan) 2 = xsize plan * ysize plan * zsize plan \<and>
        c_div (xsize plan * ysize plan * zsize plan) 2 = px * py * pz \<and>
        createKernel ctx px py pz 0 forward False =
          Some (Inr (if forward then zkernel plan else invzkernel plan, zthreads plan)) \<and>
        createKernel ctx py pz px 1 forward False =
          Some (Inr (if forward then xkernel plan else invxkernel plan, xthreads plan)) \<and>
        createKernel ctx pz px py 2 forward False =
          Some (Inr (if forward then ykernel plan else invykernel plan, ythreads plan)))"
proof -
  have "2 * c_div (xsize plan * ysize plan * zsize plan) 2 = xsize plan * ysize plan * zsize plan \<and>
        c_div (xsize plan * ysize plan * zsize plan) 2 = px * py * pz \<and>
        createKernel ctx px py pz 0 forward False =
          Some (Inr (if forward then zkernel plan else invzkernel plan, zthreads plan)) \<and>
        createKernel ctx py pz px 1 forward False =
          Some (Inr (if forward then xkernel plan else invxkernel plan, xthreads plan)) \<and>
        createKernel ctx pz px py 2 forward False =
          Some (Inr (if forward then ykernel plan else invykernel plan, ythreads plan))"
    if built: "newCudaFFT3D ctx x y z r2c = Some (Inr plan)"
      and sel: "selectPacking x y z r2c = (p, a, px, py, pz)" for ctx x y z r2c p a px py pz
  proof -
    from newCudaFFT3D_plan [OF built sel] assms(1)
    have eq: "xsize plan = x" "ysize plan = y" "zsize plan = z" "p" by auto
    with sel have half: "r2c" "2 * (px * py * pz) = x * y * z" "even (x * y * z)"
      using selectPacking_packed [of x y z r2c a px py pz] by simp_all
    have "2 * c_div (x * y * z) 2 = x * y * z" using half(3) by (rule c_div_2_half)
    moreover from this half(2) have "c_div (x * y * z) 2 = px * py * pz" by simp
    ultimately show ?thesis
      using plan_axis_kernels [OF built sel, of forward] eq by simp
  qed
  then have origin: "\<forall>ctx x y z r2c p a px py pz.
        newCudaFFT3D ctx x y z r2c = Some (Inr plan) \<and>
        selectPacking x y z r2c = (p, a, px, py, pz) \<longrightarrow>
        2 * c_div (xsize plan * ysize plan * zsize plan) 2 = xsize plan * ysize plan * zsize plan \<and>
        c_div (xsize plan * ysize plan * zsize plan) 2 = px * py * pz \<and>
        createKernel ctx px py pz 0 forward False =
          Some (Inr (if forward then zkernel plan else invzkernel plan, zthreads plan)) \<and>
        createKernel ctx py pz px 1 forward False =
          Some (Inr (if forward then xkernel plan else invxkernel plan, xthreads plan)) \<and>
        createKernel ctx pz px py 2 forward False =
          Some (Inr (if forward then ykernel plan else invykernel plan, ythreads plan))"
    by blast
  have "mul32 (mul32 (xsize plan) (ysize plan)) (zsize plan) =
      xsize plan * ysize plan * zsize plan"
    using assms(2,3) by (rule gridProduct_representable)
  then have launches: "execFFT plan in' out forward log =
     log @
     [\<lparr>launch_kernel = (if forward then packForwardKernel plan else packBackwardKernel plan),
       launch_args = [getDevicePointer in', getDevicePointer out],
       launch_threads = c_div (xsize plan * ysize plan * zsize plan) 2,
       launch_blockSize = 128\<rparr>,
      \<lparr>launch_kernel = (if forward then zkernel plan else invzkernel plan),
       launch_args = [getDevicePointer out, getDevicePointer in'],
       launch_threads = c_div (xsize plan * ysize plan * zsize plan) 2,
       launch_blockSize = zthreads plan\<rparr>,
      \<lparr>launch_kernel = (if forward then xkernel plan else invxkernel plan),
       launch_args = [getDevicePointer in', getDevicePointer out],
       launch_threads = c_div (xsize plan * ysize plan * zsize plan) 2,
       launch_blockSize = xthreads plan\<rparr>,
      \<lparr>launch_kernel = (if forward then ykernel plan else invykernel plan),
       launch_args = [getDevicePointer out, getDevicePointer in'],
       launch_threads = c_div (xsize plan * ysize plan * zsize plan) 2,
       launch_blockSize = ythreads plan\<rparr>,
      \<lparr>launch_kernel = (if forward then unpackForwardKernel plan else unpackBackwardKernel plan),
       launch_args = [getDevicePointer in', getDevicePointer out],
       launch_threads = c_div (xsize plan * ysize plan * zsize plan) 2,
       launch_blockSize = 128\<rparr>]"
    using execFFT_packed [OF assms(1), of in' out forward log] by simp
  from launches origin show ?thesis by (rule conjI)
qed

theorem packed_path_launches_witness:
  "\<exists>plan. newCudaFFT3D singlePrecision 12 28 8 True = Some (Inr plan) \<and>
     packRealAsComplex plan \<and>
     representable (xsize plan * ysize plan) \<and>
     representable (xsize plan * ysize plan * zsize plan) \<and>
     execFFT plan \<lparr>getDevicePointer = 100\<rparr> \<lparr>getDevicePointer = 200\<rparr> True [] =
       [\<lparr>launch_kernel = packForwardKernel plan, launch_args = [100, 200],
         launch_threads = 1344, launch_blockSize = 128\<rparr>,
        \<lparr>launch_kernel = zkernel plan, launch_args = [200, 100],
         launch_threads = 1344, launch_blockSize = 256\<rparr>,
        \<lparr>launch_kernel = xkernel plan, launch_args = [100, 200],
         launch_threads = 1344, launch_blockSize = 255\<rparr>,
        \<lparr>launch_kernel = ykernel plan, launch_args = [200, 100],
         launch_threads = 1344, launch_blockSize = 252\<rparr>,
        \<lparr>launch_kernel = unpackForwardKernel plan, launch_args = [100, 200],
         launch_threads = 1344, launch_blockSize = 128\<rparr>] \<and>
     execFFT plan \<lparr>getDevicePointer = 100\<rparr> \<lparr>getDevicePointer = 200\<rparr> False [] =
       [\<lparr>launch_kernel = packBackwardKernel plan, launch_args = [100, 200],
         launch_threads = 1344, launch_blockSize = 128\<rparr>,
        \<lparr>launch_kernel = invzkernel plan, launch_args = [200, 100],
         launch_threads = 1344, launch_blockSize = 256\<rparr>,
        \<lparr>launch_kernel = invxkernel plan, launch_args = [100, 200],
         launch_threads = 1344, launch_blockSize = 255\<rparr>,
        \<lparr>launch_kernel = invykernel plan, launch_args = [200, 100],
         launch_threads = 1344, launch_blockSize = 252\<rparr>,
        \<lparr>launch_kernel = unpackBackwardKernel plan, launch_args = [100, 200],
         launch_threads = 1344, launch_blockSize = 128\<rparr>] \<and>
     xsize plan * ysize plan * zsize plan = 2688 \<and>
     createKernel singlePrecision 6 28 8 0 True False = Some (Inr (zkernel plan, 256)) \<and>
     createKernel singlePrecision 28 8 6 1 True False = Some (Inr (xkernel plan, 255)) \<and>
     createKernel singlePrecision 8 6 28 2 True False = Some (Inr (ykernel plan, 252)) \<and>
     createKernel singlePrecision 6 28 8 0 False False = Some (Inr (invzkernel plan, 256)) \<and>
     createKernel singlePrecision 28 8 6 1 False False = Some (Inr (invxkernel plan, 255)) \<and>
     createKernel singlePrecision 8 6 28 2 False False = Some (Inr (invykernel plan, 252)) \<and>
     packForwardKernel plan \<noteq> NullFunction \<and> unpackForwardKernel plan \<noteq> NullFunction \<and>
     packBackwardKernel plan \<noteq> NullFunction \<and> unpackBackwardKernel plan \<noteq> NullFunction"
proof -
  obtain plan where plan: "newCudaFFT3D singlePrecision 12 28 8 True = Some (Inr plan)"
    using newCudaFFT3D_returns [OF selectPacking_12_28_8, of singlePrecision]
      legalSize_8 legalSize_6 legalSize_28
    by auto
  from newCudaFFT3D_plan [OF plan selectPacking_12_28_8]
  have p: "packRealAsComplex plan" "xsize plan = 12" "ysize plan = 28" "zsize plan = 8"
    by simp_all
  have r: "representable (xsize plan * ysize plan)"
      "representable (xsize plan * ysize plan * zsize plan)"
    by (simp_all add: p representable_def INT_MIN_def INT_MAX_def)
  have n: "xsize plan * ysize plan * zsize plan = 2688" by (simp add: p)
  have h: "c_div 2688 2 = 1344" by (simp add: c_div_def)
  note k = plan_axis_kernels [OF plan selectPacking_12_28_8]
  note t = threads_8_6_28 [OF k(1) [of True] k(2) [of True] k(3) [of True]]
  have kz: "createKernel singlePrecision 6 28 8 0 True False = Some (Inr (zkernel plan, 256))"
      "createKernel singlePrecision 6 28 8 0 False False = Some (Inr (invzkernel plan, 256))"
    using k(1) [of True] k(1) [of False] t(1) by simp_all
  have kx: "createKernel singlePrecision 28 8 6 1 True False = Some (Inr (xkernel plan, 255))"
      "createKernel singlePrecision 28 8 6 1 False False = Some (Inr (invxkernel plan, 255))"
    using k(2) [of True] k(2) [of False] t(2) by simp_all
  have ky: "createKernel singlePrecision 8 6 28 2 True False = Some (Inr (ykernel plan, 252))"
      "createKernel singlePrecision 8 6 28 2 False False = Some (Inr (invykernel plan, 252))"
    using k(3) [of True] k(3) [of False] t(3) by simp_all
  have pk: "packForwardKernel plan \<noteq> NullFunction" "unpackForwardKernel plan \<noteq> NullFunction"
      "packBackwardKernel plan \<noteq> NullFunction" "unpackBackwardKernel plan \<noteq> NullFunction"
    using plan_pack_kernels [OF plan selectPacking_12_28_8] by simp_all
  note launches = packed_path_launches [OF p(1) r, THEN conjunct1,
      of "\<lparr>getDevicePointer = 100\<rparr>" "\<lparr>getDevicePointer = 200\<rparr>" _ "[]"]
  have fwd: "execFFT plan \<lparr>getDevicePointer = 100\<rparr> \<lparr>getDevicePointer = 200\<rparr> True [] =
       [\<lparr>launch_kernel = packForwardKernel plan, launch_args = [100, 200],
         launch_threads = 1344, launch_blockSize = 128\<rparr>,
        \<lparr>launch_kernel = zkernel plan, launch_args = [200, 100],
         launch_threads = 1344, launch_blockSize = 256\<rparr>,
        \<lparr>launch_kernel = xkernel plan, launch_args = [100, 200],
         launch_threads = 1344, launch_blockSize = 255\<rparr>,
        \<lparr>launch_kernel = ykernel plan, launch_args = [200, 100],
         launch_threads = 1344, launch_blockSize = 252\<rparr>,
        \<lparr>launch_kernel = unpackForwardKernel plan, launch_args = [100, 200],
         launch_threads = 1344, launch_blockSize = 128\<rparr>]"
    unfolding launches [of True] n h by (simp add: t)
  have bwd: "execFFT plan \<lparr>getDevicePointer = 100\<rparr> \<lparr>getDevicePointer = 200\<rparr> False [] =
       [\<lparr>launch_kernel = packBackwardKernel plan, launch_args = [100, 200],
         launch_threads = 1344, launch_blockSize = 128\<rparr>,
        \<lparr>launch_kernel = invzkernel plan, launch_args = [200, 100],
         launch_threads = 1344, launch_blockSize = 256\<rparr>,
        \<lparr>launch_kernel = invxkernel plan, launch_args = [100, 200],
         launch_threads = 1344, launch_blockSize = 255\<rparr>,
        \<lparr>launch_kernel = invykernel plan, launch_args = [200, 100],
         launch_threads = 1344, launch_blockSize = 252\<rparr>,
        \<lparr>launch_kernel = unpackBackwardKernel plan, launch_args = [100, 200],
         launch_threads = 1344, launch_blockSize = 128\<rparr>]"
    unfolding launches [of False] n h by (simp add: t)
  from plan p(1) r fwd bwd n kz kx ky pk show ?thesis
    by (intro exI [of _ plan] conjI)
qed

end
